theory Spec2Isabelle
  imports Main "HOL-Library.Word" "HOL-Library.Sublist"
begin

unbundle bit_operations_syntax

section \<open>The streaming reader of the Thrift binary protocol\<close>

text \<open>
  This theory embeds \<^verbatim>\<open>protocol/binary/stream_reader.go\<close> of thriftrw-go and the enum
  compiler exercised by \<^verbatim>\<open>compile/enum_test.go\<close>, and states the properties of the
  specification about them.

  Go's fixed-width integers are words: \<open>int8\<close> and \<open>byte\<close> are \<open>8 word\<close>, \<open>int16\<close> is
  \<open>16 word\<close>, \<open>int32\<close> is \<open>32 word\<close>, \<open>int64\<close> (where it is a decoded value) is
  \<open>64 word\<close>; \<open>sint\<close> reads the signed value. Byte counts held in Go's \<open>int\<close> and \<open>int64\<close>
  (slice lengths, \<open>n\<close> of \<open>discard\<close>, the products in \<open>skipMap\<close> and \<open>skipList\<close>) are
  \<open>int\<close>: they are bounded by \<open>2^31 * 16\<close>, so they never wrap.

  A Go result \<open>(v, err)\<close> is the pair \<open>(v, err)\<close> with \<open>err :: error option\<close>, where
  \<open>None\<close> is \<open>nil\<close>. Every method takes the reader's state and returns the new one.
\<close>

subsection \<open>Data\<close>

type_synonym byte = "8 word"
type_synonym int8 = "8 word"
type_synonym int16 = "16 word"
type_synonym int32 = "32 word"
type_synonym int64 = "64 word"

text \<open>\<^verbatim>\<open>wire.Type\<close> is declared as \<^verbatim>\<open>type Type int8\<close>.\<close>

type_synonym wire_Type = int8

text \<open>
  The errors the reader can return. \<open>EOF\<close> and \<open>ErrUnexpectedEOF\<close> are the two values of
  package \<^verbatim>\<open>io\<close>; the others are the \<^verbatim>\<open>fmt.Errorf\<close> calls of the file, one constructor
  per format string, carrying the formatted argument:
  \<^item> \<open>InvalidBool b\<close>: \<^verbatim>\<open>"invalid bool value: %q"\<close>
  \<^item> \<open>NegativeBinaryLength n\<close>: \<^verbatim>\<open>"negative length %v specified for binary field"\<close>
  \<^item> \<open>InvalidStopField e\<close>: \<^verbatim>\<open>"invalid stop field: %v"\<close>
  \<^item> \<open>NegativeLength n\<close>: \<^verbatim>\<open>"got negative length: %v"\<close>
  \<^item> \<open>UnknownTType t\<close>: \<^verbatim>\<open>"unknown ttype %v"\<close>
\<close>

datatype error =
    EOF
  | ErrUnexpectedEOF
  | InvalidBool byte
  | NegativeBinaryLength int32
  | InvalidStopField int8
  | NegativeLength int32
  | UnknownTType wire_Type

text \<open>
  The byte source behind the reader is an \<^verbatim>\<open>io.Reader\<close>. It is modelled as the list of
  the chunks it will deliver: one call of \<open>Read\<close> with a buffer of \<open>k\<close> bytes returns
  bytes of the first chunk only, at most \<open>k\<close> of them, with a \<open>nil\<close> error; what is left
  of the chunk stays for the next call. A source with no chunk left returns \<open>(0, io.EOF)\<close>.
  An in-memory reader (\<^verbatim>\<open>bytes.Reader\<close>) over the bytes \<open>bs\<close> is the source \<open>[bs]\<close>
  (\<open>[]\<close> when there are no bytes); a source that hands out its bytes in pieces has several
  chunks, and an empty chunk is a \<open>Read\<close> that returns \<open>(0, nil)\<close>. A source that fails with an error other than
  \<open>io.EOF\<close>, or that returns its last bytes together with \<open>io.EOF\<close>, is outside the model.
\<close>

type_synonym source = "byte list list"

fun Read :: "nat \<Rightarrow> source \<Rightarrow> (byte list \<times> error option) \<times> source" where
  "Read k [] = (([], Some EOF), [])"
| "Read k (c # cs) =
     (if length c \<le> k then ((c, None), cs)
      else ((take k c, None), drop k c # cs))"

text \<open>
  \<^verbatim>\<open>io.CopyN(dst, src, n)\<close> reads from the source until \<open>n\<close> bytes are copied or the
  source is at its end. It returns \<open>nil\<close> when \<open>n\<close> bytes were written, and \<open>io.EOF\<close> when
  the source ended first. With \<open>n \<le> 0\<close> it reads nothing and returns \<open>nil\<close>. The model
  returns the bytes written to \<open>dst\<close>.
\<close>

fun CopyN_loop :: "nat \<Rightarrow> source \<Rightarrow> (byte list \<times> error option) \<times> source" where
  "CopyN_loop n [] = (([], if n = 0 then None else Some EOF), [])"
| "CopyN_loop n (c # cs) =
     (if n = 0 then (([], None), c # cs)
      else if length c \<le> n then
        (let ((bs, err), src) = CopyN_loop (n - length c) cs in ((c @ bs, err), src))
      else ((take n c, None), drop n c # cs))"

definition CopyN :: "int \<Rightarrow> source \<Rightarrow> (byte list \<times> error option) \<times> source" where
  "CopyN n src = (if n \<le> 0 then (([], None), src) else CopyN_loop (nat n) src)"

text \<open>
  The struct \<^verbatim>\<open>StreamReader\<close>: the source and the scratch buffer. The array
  \<^verbatim>\<open>[8]byte\<close> is the function from an index to its byte (the reader uses the indices
  below 8 only), so that the slice \<^verbatim>\<open>sr.buffer[0:k]\<close> has \<open>k\<close> bytes in every state.
\<close>

record StreamReader =
  reader :: source
  buffer :: "nat \<Rightarrow> byte"

definition NewStreamReader :: "source \<Rightarrow> StreamReader" where
  "NewStreamReader r = \<lparr>reader = r, buffer = (\<lambda>i. 0)\<rparr>"

text \<open>The bytes the source has not delivered yet.\<close>

definition remaining :: "StreamReader \<Rightarrow> byte list" where
  "remaining sr = concat (reader sr)"

text \<open>
  The headers of package \<^verbatim>\<open>stream\<close>, with the fields the reader assigns. The field names
  carry the record's initials, since the four records share \<open>Type\<close> and \<open>Length\<close>.
\<close>

record FieldHeader =
  fh_ID :: int16
  fh_Type :: wire_Type

record ListHeader =
  lh_Type :: wire_Type
  lh_Length :: int

record SetHeader =
  sh_Type :: wire_Type
  sh_Length :: int

record MapHeader =
  mh_KeyType :: wire_Type
  mh_ValueType :: wire_Type
  mh_Length :: int

subsection \<open>Big-endian decoding\<close>

text \<open>\<^verbatim>\<open>bigEndian.Uint16\<close>, \<^verbatim>\<open>Uint32\<close> and \<^verbatim>\<open>Uint64\<close> of \<^verbatim>\<open>encoding/binary\<close>.\<close>

definition Uint16 :: "byte list \<Rightarrow> 16 word" where
  "Uint16 b = ucast (b ! 1) OR push_bit 8 (ucast (b ! 0))"

definition Uint32 :: "byte list \<Rightarrow> 32 word" where
  "Uint32 b = ucast (b ! 3) OR push_bit 8 (ucast (b ! 2)) OR push_bit 16 (ucast (b ! 1))
     OR push_bit 24 (ucast (b ! 0))"

definition Uint64 :: "byte list \<Rightarrow> 64 word" where
  "Uint64 b = ucast (b ! 7) OR push_bit 8 (ucast (b ! 6)) OR push_bit 16 (ucast (b ! 5))
     OR push_bit 24 (ucast (b ! 4)) OR push_bit 32 (ucast (b ! 3)) OR push_bit 40 (ucast (b ! 2))
     OR push_bit 48 (ucast (b ! 1)) OR push_bit 56 (ucast (b ! 0))"

subsection \<open>Reading and discarding bytes\<close>

text \<open>
  \<open>read bs sr\<close> is \<^verbatim>\<open>sr.read(bs)\<close>: one call of the source's \<open>Read\<close> into the slice
  \<open>bs\<close>. The result holds the slice's new contents (the \<open>n\<close> bytes read overwrite its
  first \<open>n\<close> bytes), \<open>n\<close> and the error.
\<close>

definition read :: "byte list \<Rightarrow> StreamReader \<Rightarrow> (byte list \<times> int \<times> error option) \<times> StreamReader" where
  "read bs sr =
     (let ((d, err), src) = Read (length bs) (reader sr);
          n = length d;
          err = (if err = Some EOF \<or> n < length bs then Some ErrUnexpectedEOF else err)
      in ((d @ drop n bs, int n, err), sr\<lparr>reader := src\<rparr>))"

text \<open>
  \<open>read_buffer k sr\<close> is the pair of statements
  \<^verbatim>\<open>bs := sr.buffer[0:k]; _, err := sr.read(bs)\<close>: the slice aliases the scratch buffer,
  so the bytes read land in the reader's state.
\<close>

definition read_buffer :: "nat \<Rightarrow> StreamReader \<Rightarrow> (byte list \<times> error option) \<times> StreamReader" where
  "read_buffer k sr =
     (let ((bs, n, err), sr) = read (map (buffer sr) [0..<k]) sr
      in ((bs, err), sr\<lparr>buffer := (\<lambda>i. if i < k then bs ! i else buffer sr i)\<rparr>))"

definition discard :: "int \<Rightarrow> StreamReader \<Rightarrow> error option \<times> StreamReader" where
  "discard n sr =
     (let ((bs, err), src) = CopyN n (reader sr);
          err = (if err = Some EOF then Some ErrUnexpectedEOF else err)
      in (err, sr\<lparr>reader := src\<rparr>))"

subsection \<open>Scalars\<close>

definition ReadBool :: "StreamReader \<Rightarrow> (bool \<times> error option) \<times> StreamReader" where
  "ReadBool sr =
     (let ((bs, err), sr) = read_buffer 1 sr
      in case err of
           Some e \<Rightarrow> ((False, Some e), sr)
         | None \<Rightarrow>
             if bs ! 0 = 0 then ((False, None), sr)
             else if bs ! 0 = 1 then ((True, None), sr)
             else ((False, Some (InvalidBool (bs ! 0))), sr))"

definition ReadInt8 :: "StreamReader \<Rightarrow> (int8 \<times> error option) \<times> StreamReader" where
  "ReadInt8 sr = (let ((bs, err), sr) = read_buffer 1 sr in ((bs ! 0, err), sr))"

definition ReadInt16 :: "StreamReader \<Rightarrow> (int16 \<times> error option) \<times> StreamReader" where
  "ReadInt16 sr = (let ((bs, err), sr) = read_buffer 2 sr in ((Uint16 bs, err), sr))"

definition ReadInt32 :: "StreamReader \<Rightarrow> (int32 \<times> error option) \<times> StreamReader" where
  "ReadInt32 sr = (let ((bs, err), sr) = read_buffer 4 sr in ((Uint32 bs, err), sr))"

definition ReadInt64 :: "StreamReader \<Rightarrow> (int64 \<times> error option) \<times> StreamReader" where
  "ReadInt64 sr = (let ((bs, err), sr) = read_buffer 8 sr in ((Uint64 bs, err), sr))"

text \<open>
  \<open>ReadDouble\<close> returns \<^verbatim>\<open>math.Float64frombits(uint64(val))\<close>; the model keeps the
  bit pattern. A Go \<open>string\<close> is its bytes.
\<close>

definition ReadDouble :: "StreamReader \<Rightarrow> (64 word \<times> error option) \<times> StreamReader" where
  "ReadDouble sr = (let ((val, err), sr) = ReadInt64 sr in ((val, err), sr))"

text \<open>
  \<open>ReadBinary\<close> returns a slice, which can be \<open>nil\<close>: the slice is a
  \<open>byte list option\<close>, \<open>None\<close> for \<open>nil\<close> and \<open>Some []\<close> for the empty slice
  \<^verbatim>\<open>[]byte{}\<close>. The constant \<open>bytesAllocThreshold\<close> is declared in another file of the
  package; it is a parameter here. \<^verbatim>\<open>make([]byte, length)\<close> is \<open>length\<close> zero bytes, and
  \<^verbatim>\<open>buf.Bytes()\<close> after \<open>io.CopyN\<close> is the (allocated) buffer with the bytes copied.
\<close>

definition ReadBinary :: "int \<Rightarrow> StreamReader \<Rightarrow> (byte list option \<times> error option) \<times> StreamReader" where
  "ReadBinary bytesAllocThreshold sr =
     (let ((length, err), sr) = ReadInt32 sr
      in case err of
           Some e \<Rightarrow> ((None, Some e), sr)
         | None \<Rightarrow>
             if sint length < 0 then ((None, Some (NegativeBinaryLength length)), sr)
             else if length = 0 then ((Some [], None), sr)
             else if sint length > bytesAllocThreshold then
               (let ((buf, err), src) = CopyN (sint length) (reader sr);
                    err = (if err = Some EOF then Some ErrUnexpectedEOF else err)
                in ((Some buf, err), sr\<lparr>reader := src\<rparr>))
             else
               (let ((bs, n, err), sr) = read (replicate (nat (sint length)) 0) sr
                in ((Some bs, err), sr)))"

definition ReadString :: "int \<Rightarrow> StreamReader \<Rightarrow> (byte list \<times> error option) \<times> StreamReader" where
  "ReadString bytesAllocThreshold sr =
     (let ((bs, err), sr) = ReadBinary bytesAllocThreshold sr
      in ((case bs of None \<Rightarrow> [] | Some b \<Rightarrow> b, err), sr))"

subsection \<open>Structs, fields and containers\<close>

definition ReadStructBegin :: "StreamReader \<Rightarrow> error option \<times> StreamReader" where
  "ReadStructBegin sr = (None, sr)"

definition ReadStructEnd :: "StreamReader \<Rightarrow> error option \<times> StreamReader" where
  "ReadStructEnd sr =
     (let ((end, err), sr) = ReadInt8 sr
      in case err of
           Some e \<Rightarrow> (Some e, sr)
         | None \<Rightarrow> if end \<noteq> 0 then (Some (InvalidStopField end), sr) else (None, sr))"

definition ReadFieldBegin :: "StreamReader \<Rightarrow> (FieldHeader \<times> bool \<times> error option) \<times> StreamReader" where
  "ReadFieldBegin sr =
     (let fh = \<lparr>fh_ID = 0, fh_Type = 0\<rparr>;
          ((fieldType, err), sr) = ReadInt8 sr
      in case err of
           Some e \<Rightarrow> ((fh, False, Some e), sr)
         | None \<Rightarrow>
             (let ((fieldID, err), sr) = ReadInt16 sr
              in case err of
                   Some e \<Rightarrow> ((fh, False, Some e), sr)
                 | None \<Rightarrow> ((fh\<lparr>fh_ID := fieldID, fh_Type := fieldType\<rparr>, True, err), sr)))"

definition ReadFieldEnd :: "StreamReader \<Rightarrow> error option \<times> StreamReader" where
  "ReadFieldEnd sr = (None, sr)"

definition readTypeSizeHeader :: "StreamReader \<Rightarrow> (wire_Type \<times> int \<times> error option) \<times> StreamReader" where
  "readTypeSizeHeader sr =
     (let ((elemType, err), sr) = ReadInt8 sr
      in case err of
           Some e \<Rightarrow> ((0, 0, Some e), sr)
         | None \<Rightarrow>
             (let ((size, err), sr) = ReadInt32 sr
              in case err of
                   Some e \<Rightarrow> ((0, 0, Some e), sr)
                 | None \<Rightarrow>
                     if sint size < 0 then ((0, 0, Some (NegativeLength size)), sr)
                     else ((elemType, sint size, None), sr)))"

definition ReadListBegin :: "StreamReader \<Rightarrow> (ListHeader \<times> error option) \<times> StreamReader" where
  "ReadListBegin sr =
     (let lh = \<lparr>lh_Type = 0, lh_Length = 0\<rparr>;
          ((elemType, listSize, err), sr) = readTypeSizeHeader sr
      in case err of
           Some e \<Rightarrow> ((lh, Some e), sr)
         | None \<Rightarrow> ((lh\<lparr>lh_Type := elemType, lh_Length := listSize\<rparr>, None), sr))"

definition ReadListEnd :: "StreamReader \<Rightarrow> error option \<times> StreamReader" where
  "ReadListEnd sr = (None, sr)"

definition ReadSetBegin :: "StreamReader \<Rightarrow> (SetHeader \<times> error option) \<times> StreamReader" where
  "ReadSetBegin sr =
     (let sh = \<lparr>sh_Type = 0, sh_Length = 0\<rparr>;
          ((elemType, setSize, err), sr) = readTypeSizeHeader sr
      in case err of
           Some e \<Rightarrow> ((sh, Some e), sr)
         | None \<Rightarrow> ((sh\<lparr>sh_Type := elemType, sh_Length := setSize\<rparr>, None), sr))"

definition ReadSetEnd :: "StreamReader \<Rightarrow> error option \<times> StreamReader" where
  "ReadSetEnd sr = (None, sr)"

definition ReadMapBegin :: "StreamReader \<Rightarrow> (MapHeader \<times> error option) \<times> StreamReader" where
  "ReadMapBegin sr =
     (let mh = \<lparr>mh_KeyType = 0, mh_ValueType = 0, mh_Length = 0\<rparr>;
          ((keyType, err), sr) = ReadInt8 sr
      in case err of
           Some e \<Rightarrow> ((mh, Some e), sr)
         | None \<Rightarrow>
             (let ((valueType, err), sr) = ReadInt8 sr
              in case err of
                   Some e \<Rightarrow> ((mh, Some e), sr)
                 | None \<Rightarrow>
                     (let ((size, err), sr) = ReadInt32 sr
                      in case err of
                           Some e \<Rightarrow> ((mh, Some e), sr)
                         | None \<Rightarrow>
                             if sint size < 0 then ((mh, Some (NegativeLength size)), sr)
                             else ((mh\<lparr>mh_KeyType := keyType, mh_ValueType := valueType,
                                       mh_Length := sint size\<rparr>, None), sr))))"

definition ReadMapEnd :: "StreamReader \<Rightarrow> error option \<times> StreamReader" where
  "ReadMapEnd sr = (None, sr)"

subsection \<open>Skip\<close>

text \<open>
  Modelled from the spec: the type codes of package \<^verbatim>\<open>wire\<close> and the helper
  \<^verbatim>\<open>fixedWidth\<close> are declared outside the file. The spec gives the codes
  (\<open>BOOL=2, I8=3, DOUBLE=4, I16=6, I32=8, I64=10, BINARY=11, STRUCT=12, MAP=13, SET=14,
  LIST=15\<close>) and names the fixed-width scalars (\<open>BOOL, I8, I16, I32, I64, DOUBLE\<close>: one
  byte for a boolean, 8/16/32/64-bit integers, a 64-bit double). For every other type
  \<open>fixedWidth\<close> is not positive (the reader only tests \<open>w > 0\<close>); the model returns \<open>-1\<close>.
\<close>

definition TBool :: wire_Type where "TBool = 2"
definition TI8 :: wire_Type where "TI8 = 3"
definition TDouble :: wire_Type where "TDouble = 4"
definition TI16 :: wire_Type where "TI16 = 6"
definition TI32 :: wire_Type where "TI32 = 8"
definition TI64 :: wire_Type where "TI64 = 10"
definition TBinary :: wire_Type where "TBinary = 11"
definition TStruct :: wire_Type where "TStruct = 12"
definition TMap :: wire_Type where "TMap = 13"
definition TSet :: wire_Type where "TSet = 14"
definition TList :: wire_Type where "TList = 15"

text \<open>
  Modelled from the spec: \<^verbatim>\<open>fixedWidth\<close>, the width in bytes of a fixed-width type and a
  value that is not positive for every other type.
\<close>

definition fixedWidth :: "wire_Type \<Rightarrow> int" where
  "fixedWidth t =
     (if t = TBool then 1
      else if t = TI8 then 1
      else if t = TDouble then 8
      else if t = TI16 then 2
      else if t = TI32 then 4
      else if t = TI64 then 8
      else -1)"

text \<open>
  \<open>Skip\<close> and its helpers call each other, and \<open>skipStruct\<close> loops for as long as the
  input has fields. The functions take the number of nested calls and loop rounds they
  may still make (each call and each round uses one) and return \<open>None\<close> when it is used
  up; \<open>Skip_total\<close> below shows that every input has a number that is enough. The three
  \<^verbatim>\<open>for\<close> loops are \<open>skipStruct_loop\<close>, \<open>skipMap_loop\<close> and \<open>skipList_loop\<close>, with the
  loop variables as arguments (\<open>sz\<close> is the source's \<open>size\<close>).
\<close>

function Skip :: "nat \<Rightarrow> wire_Type \<Rightarrow> StreamReader \<Rightarrow> (error option \<times> StreamReader) option"
  and skipStruct :: "nat \<Rightarrow> StreamReader \<Rightarrow> (error option \<times> StreamReader) option"
  and skipStruct_loop :: "nat \<Rightarrow> int8 \<Rightarrow> StreamReader \<Rightarrow> (error option \<times> StreamReader) option"
  and skipMap :: "nat \<Rightarrow> StreamReader \<Rightarrow> (error option \<times> StreamReader) option"
  and skipMap_loop ::
    "nat \<Rightarrow> int32 \<Rightarrow> int32 \<Rightarrow> wire_Type \<Rightarrow> wire_Type \<Rightarrow> StreamReader \<Rightarrow> (error option \<times> StreamReader) option"
  and skipList :: "nat \<Rightarrow> StreamReader \<Rightarrow> (error option \<times> StreamReader) option"
  and skipList_loop ::
    "nat \<Rightarrow> int \<Rightarrow> int \<Rightarrow> wire_Type \<Rightarrow> StreamReader \<Rightarrow> (error option \<times> StreamReader) option"
where
  "Skip 0 t sr = None"
| "Skip (Suc fuel) t sr =
     (if fixedWidth t > 0 then Some (discard (fixedWidth t) sr)
      else if t = TBinary then
        (let ((length, err), sr) = ReadInt32 sr
         in case err of
              Some e \<Rightarrow> Some (Some e, sr)
            | None \<Rightarrow>
                if sint length < 0 then Some (Some (NegativeLength length), sr)
                else Some (discard (sint length) sr))
      else if t = TStruct then skipStruct fuel sr
      else if t = TMap then skipMap fuel sr
      else if t = TSet then skipList fuel sr
      else if t = TList then skipList fuel sr
      else Some (Some (UnknownTType t), sr))"
| "skipStruct 0 sr = None"
| "skipStruct (Suc fuel) sr =
     (let ((fieldType, err), sr) = ReadInt8 sr
      in case err of
           Some e \<Rightarrow> Some (Some e, sr)
         | None \<Rightarrow> skipStruct_loop fuel fieldType sr)"
| "skipStruct_loop 0 fieldType sr = None"
| "skipStruct_loop (Suc fuel) fieldType sr =
     (if fieldType \<noteq> 0 then
        (let (err, sr) = discard 2 sr
         in case err of
              Some e \<Rightarrow> Some (Some e, sr)
            | None \<Rightarrow>
                (case Skip fuel fieldType sr of
                   None \<Rightarrow> None
                 | Some (err, sr) \<Rightarrow>
                     (case err of
                        Some e \<Rightarrow> Some (Some e, sr)
                      | None \<Rightarrow>
                          (let ((fieldType, err), sr) = ReadInt8 sr
                           in case err of
                                Some e \<Rightarrow> Some (Some e, sr)
                              | None \<Rightarrow> skipStruct_loop fuel fieldType sr))))
      else Some (None, sr))"
| "skipMap 0 sr = None"
| "skipMap (Suc fuel) sr =
     (let ((keyRaw, err), sr) = ReadInt8 sr
      in case err of
           Some e \<Rightarrow> Some (Some e, sr)
         | None \<Rightarrow>
             (let ((valueRaw, err), sr) = ReadInt8 sr
              in case err of
                   Some e \<Rightarrow> Some (Some e, sr)
                 | None \<Rightarrow>
                     (let ((size, err), sr) = ReadInt32 sr
                      in case err of
                           Some e \<Rightarrow> Some (Some e, sr)
                         | None \<Rightarrow>
                             if sint size < 0 then Some (Some (NegativeLength size), sr)
                             else
                               (let key = keyRaw; keyWidth = fixedWidth key;
                                    value = valueRaw; valueWidth = fixedWidth value
                                in if keyWidth > 0 \<and> valueWidth > 0 then
                                     (let length = sint size * (keyWidth + valueWidth)
                                      in Some (discard length sr))
                                   else skipMap_loop fuel 0 size key value sr))))"
| "skipMap_loop 0 i sz key value sr = None"
| "skipMap_loop (Suc fuel) i sz key value sr =
     (if sint i < sint sz then
        (case Skip fuel key sr of
           None \<Rightarrow> None
         | Some (err, sr) \<Rightarrow>
             (case err of
                Some e \<Rightarrow> Some (Some e, sr)
              | None \<Rightarrow>
                  (case Skip fuel value sr of
                     None \<Rightarrow> None
                   | Some (err, sr) \<Rightarrow>
                       (case err of
                          Some e \<Rightarrow> Some (Some e, sr)
                        | None \<Rightarrow> skipMap_loop fuel (i + 1) sz key value sr))))
      else Some (None, sr))"
| "skipList 0 sr = None"
| "skipList (Suc fuel) sr =
     (let ((elemType, size, err), sr) = readTypeSizeHeader sr
      in case err of
           Some e \<Rightarrow> Some (Some e, sr)
         | None \<Rightarrow>
             (let width = fixedWidth elemType
              in if width > 0 then
                   (let length = width * size in Some (discard length sr))
                 else skipList_loop fuel 0 size elemType sr))"
| "skipList_loop 0 i sz elemType sr = None"
| "skipList_loop (Suc fuel) i sz elemType sr =
     (if i < sz then
        (case Skip fuel elemType sr of
           None \<Rightarrow> None
         | Some (err, sr) \<Rightarrow>
             (case err of
                Some e \<Rightarrow> Some (Some e, sr)
              | None \<Rightarrow> skipList_loop fuel (i + 1) sz elemType sr))
      else Some (None, sr))"
  by pat_completeness auto

termination
  by (relation "measure (case_sum (case_sum fst (case_sum fst fst))
                                  (case_sum (case_sum fst fst) (case_sum fst fst)))") simp_all

text \<open>
  The spec's words for what \<open>Skip\<close> does with the elements of a list or set whose
  element type is not fixed-width (``else recurse \<open>length\<close> times''), to compare the loop
  of \<open>skipList\<close> with: \<open>n\<close> values of type \<open>t\<close> are skipped one after the other, and the
  first error ends the skipping.
\<close>

fun skip_elements_spec ::
  "nat \<Rightarrow> nat \<Rightarrow> wire_Type \<Rightarrow> StreamReader \<Rightarrow> (error option \<times> StreamReader) option" where
  "skip_elements_spec fuel 0 t sr = Some (None, sr)"
| "skip_elements_spec fuel (Suc n) t sr =
     (case Skip fuel t sr of
        None \<Rightarrow> None
      | Some (err, sr) \<Rightarrow>
          (case err of
             Some e \<Rightarrow> Some (Some e, sr)
           | None \<Rightarrow> skip_elements_spec fuel n t sr))"

subsection \<open>A source that ends early\<close>

text \<open>
  \<open>take_source r src\<close> is the source that delivers what \<open>src\<close> delivers, chunk by chunk,
  until \<open>r\<close> bytes are out, and ends there: its next \<open>Read\<close> returns \<open>io.EOF\<close>. The chunk
  that holds byte \<open>r\<close> is cut. \<open>truncate_source r sr\<close> is the reader \<open>sr\<close> over that
  source, with the same scratch buffer. It is the source of the statements about a stream
  that ends partway through a value; the reader's code has no such function.
\<close>

fun take_source :: "nat \<Rightarrow> source \<Rightarrow> source" where
  "take_source r [] = []"
| "take_source r (c # cs) =
     (if r = 0 then []
      else if length c \<le> r then c # take_source (r - length c) cs
      else [take r c])"

definition truncate_source :: "nat \<Rightarrow> StreamReader \<Rightarrow> StreamReader" where
  "truncate_source r sr = sr\<lparr>reader := take_source r (reader sr)\<rparr>"

text \<open>The number of bytes a call has consumed, from the states before and after it.\<close>

definition consumed :: "StreamReader \<Rightarrow> StreamReader \<Rightarrow> nat" where
  "consumed sr sr' = length (remaining sr) - length (remaining sr')"

text \<open>
  The bodies of \<open>Skip\<close> and its helpers are sequences of two kinds of step, each of the
  form \<^verbatim>\<open>if err != nil { return err }\<close>: a call that returns an error only
  (\<open>then_skip\<close>), and a read that returns a value with the error (\<open>then_read\<close>). The
  lemmas \<open>Skip_then\<close> to \<open>skipList_loop_then\<close> below show that the seven functions are
  these sequences, so that a property of the steps carries over to them.
\<close>

type_synonym skip_result = "(error option \<times> StreamReader) option"

definition then_skip ::
  "(StreamReader \<Rightarrow> skip_result) \<Rightarrow> (StreamReader \<Rightarrow> skip_result)
     \<Rightarrow> StreamReader \<Rightarrow> skip_result" where
  "then_skip a b sr =
     (case a sr of
        None \<Rightarrow> None
      | Some (err, sr) \<Rightarrow> (case err of Some e \<Rightarrow> Some (Some e, sr) | None \<Rightarrow> b sr))"

definition then_read ::
  "(StreamReader \<Rightarrow> ('v \<times> error option) \<times> StreamReader)
     \<Rightarrow> ('v \<Rightarrow> StreamReader \<Rightarrow> skip_result) \<Rightarrow> StreamReader \<Rightarrow> skip_result" where
  "then_read rd b sr =
     (let ((v, err), sr) = rd sr
      in case err of Some e \<Rightarrow> Some (Some e, sr) | None \<Rightarrow> b v sr)"

text \<open>
  The property that is shown of every step, and by induction of \<open>Skip\<close>: when the step
  succeeds on a source, having consumed \<open>m\<close> bytes, then on the same source cut after
  \<open>r\<close> bytes it succeeds in the same way if \<open>m \<le> r\<close>, and it reports the unexpected-EOF
  error if \<open>r < m\<close>. \<open>read_truncation_safe k\<close> is the same for a read of \<open>k\<close> bytes that
  returns a value.
\<close>

definition truncation_safe :: "(StreamReader \<Rightarrow> skip_result) \<Rightarrow> bool" where
  "truncation_safe op \<longleftrightarrow>
     (\<forall>f f'. op f = Some (None, f') \<longrightarrow>
        length (remaining f') \<le> length (remaining f)
        \<and> (\<forall>r. (consumed f f' \<le> r \<longrightarrow>
                   op (truncate_source r f) = Some (None, truncate_source (r - consumed f f') f'))
              \<and> (r < consumed f f' \<longrightarrow>
                   (\<exists>t'. op (truncate_source r f) = Some (Some ErrUnexpectedEOF, t')))))"

definition read_truncation_safe ::
  "nat \<Rightarrow> (StreamReader \<Rightarrow> ('v \<times> error option) \<times> StreamReader) \<Rightarrow> bool" where
  "read_truncation_safe k rd \<longleftrightarrow>
     (\<forall>f v f'. rd f = ((v, None), f') \<longrightarrow>
        length (remaining f) = length (remaining f') + k
        \<and> (\<forall>r. (k \<le> r \<longrightarrow> rd (truncate_source r f) = ((v, None), truncate_source (r - k) f'))
              \<and> (r < k \<longrightarrow> snd (fst (rd (truncate_source r f))) = Some ErrUnexpectedEOF)))"

section \<open>The enum compiler\<close>

text \<open>
  Modelled from the spec: the AST of an enum declaration and the compiled \<open>EnumSpec\<close>.
  \<^verbatim>\<open>compileEnum\<close>, \<^verbatim>\<open>ast.Enum\<close> and \<^verbatim>\<open>EnumSpec\<close> are not among the source files; only
  the test \<^verbatim>\<open>compile/enum_test.go\<close> is. An AST item has a name and an optional explicit
  value; a compiled item (\<^verbatim>\<open>EnumItem{"Disabled", 0}\<close> in the test) has a name and a
  value, which the spec says is an \<open>i32\<close>. The parser is not modelled: a declaration is
  given as its AST.
\<close>

datatype ast_EnumItem = ast_EnumItem (ast_item_Name: string) (ast_item_Value: "int32 option")

datatype ast_Enum = ast_Enum (ast_enum_Name: string) (ast_enum_Items: "ast_EnumItem list")

datatype EnumItem = EnumItem (item_Name: string) (item_Value: int32)

datatype EnumSpec = EnumSpec (spec_Name: string) (spec_Items: "EnumItem list")

text \<open>
  Modelled from the spec: the errors of the enum compiler and their messages. The spec
  gives the two fragments \<^verbatim>\<open>cannot compile "Foo.A"\<close> and
  \<^verbatim>\<open>the name "A" has already been used\<close> and the form \<^verbatim>\<open>cannot compile `Foo.bar`: ...\<close>
  of an error annotated with the symbol being compiled.
\<close>

datatype compile_error =
    NameConflict string
  | CompileError string compile_error

fun Error :: "compile_error \<Rightarrow> string" where
  "Error (NameConflict name) = ''the name \"'' @ name @ ''\" has already been used''"
| "Error (CompileError target reason) = ''cannot compile \"'' @ target @ ''\": '' @ Error reason"

text \<open>
  Modelled from the spec: \<^verbatim>\<open>compileEnum\<close>. ``Consecutive items without explicit value
  take \<open>prev+1\<close>; the first item defaults to \<open>0\<close>; item values are \<open>i32\<close>. Item name
  collisions within the enum fail.'' The items are compiled in order; \<open>used\<close> holds the
  names of the items before the current one and \<open>prev\<close> the value of the item before it
  (\<open>None\<close> at the first item). An item whose name is in \<open>used\<close> fails the compilation with
  the error for the target \<open>Enum.Item\<close>.
\<close>

fun compileEnum_items ::
  "string \<Rightarrow> string list \<Rightarrow> int32 option \<Rightarrow> ast_EnumItem list \<Rightarrow> compile_error + EnumItem list" where
  "compileEnum_items enumName used prev [] = Inr []"
| "compileEnum_items enumName used prev (astItem # rest) =
     (if ast_item_Name astItem \<in> set used then
        Inl (CompileError (enumName @ ''.'' @ ast_item_Name astItem)
               (NameConflict (ast_item_Name astItem)))
      else
        (let value = (case ast_item_Value astItem of
                        Some v \<Rightarrow> v
                      | None \<Rightarrow> (case prev of None \<Rightarrow> 0 | Some p \<Rightarrow> p + 1))
         in case compileEnum_items enumName (ast_item_Name astItem # used) (Some value) rest of
              Inl e \<Rightarrow> Inl e
            | Inr items \<Rightarrow> Inr (EnumItem (ast_item_Name astItem) value # items)))"

text \<open>Modelled from the spec: \<^verbatim>\<open>compileEnum\<close> of a whole declaration.\<close>

definition compileEnum :: "ast_Enum \<Rightarrow> compile_error + EnumSpec" where
  "compileEnum src =
     (case compileEnum_items (ast_enum_Name src) [] None (ast_enum_Items src) of
        Inl e \<Rightarrow> Inl e
      | Inr items \<Rightarrow> Inr (EnumSpec (ast_enum_Name src) items))"

section \<open>Facts about the source and the primitive reads\<close>

lemmas wire_Type_defs =
  TBool_def TI8_def TDouble_def TI16_def TI32_def TI64_def TBinary_def TStruct_def TMap_def
  TSet_def TList_def

lemmas rd_defs =
  ReadInt8_def ReadInt16_def ReadInt32_def read_buffer_def read_def Let_def remaining_def

text \<open>
  A read of one, two or four bytes that the first chunk can serve returns them, decoded
  big-endian, and leaves the rest of the chunk (or the next chunk) in the source.
\<close>

lemma ReadInt8_chunk:
  assumes "reader sr = (b # c) # cs"
  shows "\<exists>sr'. ReadInt8 sr = ((b, None), sr') \<and> reader sr' = (if c = [] then cs else c # cs)"
  using assms by (auto simp: rd_defs)

lemma ReadInt16_chunk:
  assumes "reader sr = (b1 # b0 # c) # cs"
  shows "\<exists>sr'. ReadInt16 sr = ((Uint16 [b1, b0], None), sr')
           \<and> reader sr' = (if c = [] then cs else c # cs)"
  using assms by (auto simp: rd_defs)

lemma ReadInt32_chunk:
  assumes "reader sr = (b3 # b2 # b1 # b0 # c) # cs"
  shows "\<exists>sr'. ReadInt32 sr = ((Uint32 [b3, b2, b1, b0], None), sr')
           \<and> reader sr' = (if c = [] then cs else c # cs)"
  using assms by (auto simp: rd_defs)

text \<open>
  A field header that the first chunk can serve is returned with \<open>more = true\<close>,
  whatever the type byte is.
\<close>

lemma ReadFieldBegin_header:
  assumes "reader sr = (t # b1 # b0 # c) # cs"
  shows "fst (ReadFieldBegin sr) = (\<lparr>fh_ID = Uint16 [b1, b0], fh_Type = t\<rparr>, True, None)"
    and "remaining (snd (ReadFieldBegin sr)) = c @ concat cs"
  using assms by (auto simp: ReadFieldBegin_def rd_defs)

text \<open>A read into the scratch buffer that succeeds has consumed exactly the bytes it returns.\<close>

lemma read_buffer_consumes:
  assumes "read_buffer k sr = ((bs, None), sr')"
  shows "remaining sr = bs @ remaining sr' \<and> length bs = k"
  using assms
  by (cases "reader sr") (auto simp: read_buffer_def read_def Let_def remaining_def split: if_splits)

text \<open>\<open>io.CopyN\<close> takes the first \<open>n\<close> bytes of the source, whatever the chunks are.\<close>

lemma CopyN_loop_bytes: "fst (fst (CopyN_loop n src)) = take n (concat src)"
  by (induction src arbitrary: n) (auto simp: split_beta)

lemma CopyN_loop_err:
  "snd (fst (CopyN_loop n src)) = (if n \<le> length (concat src) then None else Some EOF)"
  by (induction src arbitrary: n) (auto simp: split_beta)

lemma CopyN_loop_rest: "concat (snd (CopyN_loop n src)) = drop n (concat src)"
  by (induction src arbitrary: n) (auto simp: split_beta)

lemma discard_err:
  "fst (discard n sr) =
     (if n \<le> int (length (concat (reader sr))) then None else Some ErrUnexpectedEOF)"
  using CopyN_loop_err [of "nat n" "reader sr"]
  by (auto simp: discard_def CopyN_def split_beta)

lemma discard_rest:
  "concat (reader (snd (discard n sr))) = drop (nat n) (concat (reader sr))"
  using CopyN_loop_rest [of "nat n" "reader sr"]
  by (auto simp: discard_def CopyN_def split_beta)

subsection \<open>No operation returns the plain \<open>io.EOF\<close>\<close>

lemma read_err:
  "snd (snd (fst (read bs sr))) =
     (case reader sr of
        [] \<Rightarrow> Some ErrUnexpectedEOF
      | c # cs \<Rightarrow> if length c < length bs then Some ErrUnexpectedEOF else None)"
  by (cases "reader sr") (auto simp: read_def Let_def)

lemma read_buffer_err:
  "snd (fst (read_buffer k sr)) =
     (case reader sr of
        [] \<Rightarrow> Some ErrUnexpectedEOF
      | c # cs \<Rightarrow> if length c < k then Some ErrUnexpectedEOF else None)"
  using read_err [of "map (buffer sr) [0..<k]" sr]
  by (cases "reader sr") (simp_all add: read_buffer_def split_beta)

lemma read_buffer_short:
  assumes "length (remaining sr) < k"
  shows "snd (fst (read_buffer k sr)) = Some ErrUnexpectedEOF"
  using assms by (cases "reader sr") (auto simp: read_buffer_err remaining_def)

lemma read_buffer_no_EOF: "snd (fst (read_buffer k sr)) \<noteq> Some EOF"
  by (cases "reader sr") (auto simp: read_buffer_err)

lemma discard_no_EOF: "fst (discard n sr) \<noteq> Some EOF"
  by (simp add: discard_err)

lemma ReadInt_no_EOF:
  "snd (fst (ReadInt8 sr)) \<noteq> Some EOF"
  "snd (fst (ReadInt16 sr)) \<noteq> Some EOF"
  "snd (fst (ReadInt32 sr)) \<noteq> Some EOF"
  "snd (fst (ReadInt64 sr)) \<noteq> Some EOF"
  using read_buffer_no_EOF [of 1 sr] read_buffer_no_EOF [of 2 sr]
        read_buffer_no_EOF [of 4 sr] read_buffer_no_EOF [of 8 sr]
  by (simp_all add: ReadInt8_def ReadInt16_def ReadInt32_def ReadInt64_def split_beta)

lemma ReadBool_no_EOF: "snd (fst (ReadBool sr)) \<noteq> Some EOF"
  using read_buffer_no_EOF [of 1 sr]
  by (auto simp: ReadBool_def split_beta split: option.splits)

lemma ReadBinary_no_EOF: "snd (fst (ReadBinary thr sr)) \<noteq> Some EOF"
  using ReadInt_no_EOF(3) [of sr] read_err [of _ "snd (ReadInt32 sr)"]
  by (auto simp: ReadBinary_def split_beta Let_def split: option.splits list.splits if_splits)

lemma readTypeSizeHeader_no_EOF: "snd (snd (fst (readTypeSizeHeader sr))) \<noteq> Some EOF"
  using ReadInt_no_EOF(1) [of sr] ReadInt_no_EOF(3) [of "snd (ReadInt8 sr)"]
  by (auto simp: readTypeSizeHeader_def split_beta split: option.splits)

lemma ReadStructEnd_no_EOF: "fst (ReadStructEnd sr) \<noteq> Some EOF"
  using ReadInt_no_EOF(1) [of sr]
  by (auto simp: ReadStructEnd_def split_beta split: option.splits)

lemma ReadFieldBegin_no_EOF: "snd (snd (fst (ReadFieldBegin sr))) \<noteq> Some EOF"
  using ReadInt_no_EOF(1) [of sr] ReadInt_no_EOF(2) [of "snd (ReadInt8 sr)"]
  by (auto simp: ReadFieldBegin_def split_beta Let_def split: option.splits)

lemma ReadListBegin_no_EOF: "snd (fst (ReadListBegin sr)) \<noteq> Some EOF"
  using readTypeSizeHeader_no_EOF [of sr]
  by (auto simp: ReadListBegin_def split_beta Let_def split: option.splits)

lemma ReadSetBegin_no_EOF: "snd (fst (ReadSetBegin sr)) \<noteq> Some EOF"
  using readTypeSizeHeader_no_EOF [of sr]
  by (auto simp: ReadSetBegin_def split_beta Let_def split: option.splits)

lemma ReadMapBegin_no_EOF: "snd (fst (ReadMapBegin sr)) \<noteq> Some EOF"
  using ReadInt_no_EOF(1) [of sr] ReadInt_no_EOF(1) [of "snd (ReadInt8 sr)"]
    ReadInt_no_EOF(3) [of "snd (ReadInt8 (snd (ReadInt8 sr)))"]
  by (auto simp: ReadMapBegin_def split_beta Let_def split: option.splits)

lemma ReadDouble_no_EOF: "snd (fst (ReadDouble sr)) \<noteq> Some EOF"
  using ReadInt_no_EOF(4) [of sr] by (simp add: ReadDouble_def split_beta)

lemma ReadString_no_EOF: "snd (fst (ReadString thr sr)) \<noteq> Some EOF"
  using ReadBinary_no_EOF [of thr sr] by (simp add: ReadString_def split_beta)

lemma ReadBinary_short:
  assumes r: "ReadInt32 sr = ((n, None), sr1)" and pos: "0 < sint n"
    and short: "int (length (remaining sr1)) < sint n"
  shows "snd (fst (ReadBinary thr sr)) = Some ErrUnexpectedEOF"
proof -
  have n0: "n \<noteq> 0"
    using pos by auto
  have big: "snd (fst (CopyN (sint n) (reader sr1))) = Some EOF"
    using pos short CopyN_loop_err [of "nat (sint n)" "reader sr1"]
    by (simp add: CopyN_def remaining_def)
  have small: "snd (snd (fst (read (replicate (nat (sint n)) 0) sr1))) = Some ErrUnexpectedEOF"
    using pos short by (cases "reader sr1") (auto simp: read_err remaining_def)
  show ?thesis
    using pos n0 big small by (simp add: ReadBinary_def r split_beta)
qed

text \<open>
  \<open>Skip\<close> and its helpers, by induction on the fuel: a result is one of a primitive
  read or discard, an error made in the file, or the result of a call with less fuel.
\<close>

lemma Skip_family_no_EOF:
  "(\<forall>t sr e sr'. Skip fuel t sr = Some (e, sr') \<longrightarrow> e \<noteq> Some EOF)
 \<and> (\<forall>sr e sr'. skipStruct fuel sr = Some (e, sr') \<longrightarrow> e \<noteq> Some EOF)
 \<and> (\<forall>ft sr e sr'. skipStruct_loop fuel ft sr = Some (e, sr') \<longrightarrow> e \<noteq> Some EOF)
 \<and> (\<forall>sr e sr'. skipMap fuel sr = Some (e, sr') \<longrightarrow> e \<noteq> Some EOF)
 \<and> (\<forall>i sz k v sr e sr'. skipMap_loop fuel i sz k v sr = Some (e, sr') \<longrightarrow> e \<noteq> Some EOF)
 \<and> (\<forall>sr e sr'. skipList fuel sr = Some (e, sr') \<longrightarrow> e \<noteq> Some EOF)
 \<and> (\<forall>i sz t sr e sr'. skipList_loop fuel i sz t sr = Some (e, sr') \<longrightarrow> e \<noteq> Some EOF)"
proof (induction fuel)
  case 0
  show ?case by simp
next
  case (Suc fuel)
  from Suc have
    "\<forall>t sr e sr'. Skip fuel t sr = Some (e, sr') \<longrightarrow> e \<noteq> Some EOF"
    "\<forall>sr e sr'. skipStruct fuel sr = Some (e, sr') \<longrightarrow> e \<noteq> Some EOF"
    "\<forall>ft sr e sr'. skipStruct_loop fuel ft sr = Some (e, sr') \<longrightarrow> e \<noteq> Some EOF"
    "\<forall>sr e sr'. skipMap fuel sr = Some (e, sr') \<longrightarrow> e \<noteq> Some EOF"
    "\<forall>i sz k v sr e sr'. skipMap_loop fuel i sz k v sr = Some (e, sr') \<longrightarrow> e \<noteq> Some EOF"
    "\<forall>sr e sr'. skipList fuel sr = Some (e, sr') \<longrightarrow> e \<noteq> Some EOF"
    "\<forall>i sz t sr e sr'. skipList_loop fuel i sz t sr = Some (e, sr') \<longrightarrow> e \<noteq> Some EOF"
    by simp_all
  note ih = this [rule_format]
  have 1: "e \<noteq> Some EOF" if "Skip (Suc fuel) t sr = Some (e, sr')" for t sr e sr'
    using that discard_no_EOF [of "fixedWidth t" sr] ReadInt_no_EOF(3) [of sr]
      discard_no_EOF [of _ "snd (ReadInt32 sr)"]
    by (auto simp: split_beta prod_eq_iff split: if_splits option.splits dest: ih)
  have 2: "e \<noteq> Some EOF" if "skipStruct (Suc fuel) sr = Some (e, sr')" for sr e sr'
    using that ReadInt_no_EOF(1) [of sr]
    by (auto simp: split_beta prod_eq_iff split: if_splits option.splits dest: ih)
  have 3: "e \<noteq> Some EOF" if "skipStruct_loop (Suc fuel) ft sr = Some (e, sr')" for ft sr e sr'
    using that discard_no_EOF [of 2 sr] ReadInt_no_EOF(1)
    by (auto simp: split_beta prod_eq_iff split: if_splits option.splits dest: ih)
  have 4: "e \<noteq> Some EOF" if "skipMap (Suc fuel) sr = Some (e, sr')" for sr e sr'
    using that ReadInt_no_EOF(1) ReadInt_no_EOF(3) discard_no_EOF
    by (auto simp: split_beta prod_eq_iff Let_def split: if_splits option.splits dest: ih)
  have 5: "e \<noteq> Some EOF" if "skipMap_loop (Suc fuel) i sz k v sr = Some (e, sr')" for i sz k v sr e sr'
    using that
    by (auto simp: split_beta prod_eq_iff split: if_splits option.splits dest: ih)
  have 6: "e \<noteq> Some EOF" if "skipList (Suc fuel) sr = Some (e, sr')" for sr e sr'
    using that readTypeSizeHeader_no_EOF [of sr] discard_no_EOF
    by (auto simp: split_beta prod_eq_iff Let_def split: if_splits option.splits dest: ih)
  have 7: "e \<noteq> Some EOF" if "skipList_loop (Suc fuel) i sz t sr = Some (e, sr')" for i sz t sr e sr'
    using that
    by (auto simp: split_beta prod_eq_iff split: if_splits option.splits dest: ih)
  show ?case
    using 1 2 3 4 5 6 7 by blast
qed

lemmas Skip_no_EOF = Skip_family_no_EOF [THEN conjunct1, rule_format]

subsection \<open>Bytes consumed\<close>

lemma Read_len: "length (concat (snd (Read k src))) \<le> length (concat src)"
  by (cases src) auto

lemma read_buffer_len: "length (remaining (snd (read_buffer k sr))) \<le> length (remaining sr)"
  using Read_len [of k "reader sr"]
  by (simp add: read_buffer_def read_def Let_def split_beta remaining_def)

lemma read_buffer_len_ok:
  assumes "snd (fst (read_buffer k sr)) = None"
  shows "length (remaining (snd (read_buffer k sr))) + k = length (remaining sr)"
  using read_buffer_consumes [of k sr "fst (fst (read_buffer k sr))" "snd (read_buffer k sr)"] assms
  by (simp add: prod_eq_iff)

lemma ReadInt8_len: "length (remaining (snd (ReadInt8 sr))) \<le> length (remaining sr)"
  using read_buffer_len [of 1 sr] by (simp add: ReadInt8_def split_beta)

lemma ReadInt8_len_ok:
  "snd (fst (ReadInt8 sr)) = None \<Longrightarrow>
     length (remaining (snd (ReadInt8 sr))) < length (remaining sr)"
  using read_buffer_len_ok [of 1 sr] by (simp add: ReadInt8_def split_beta)

lemma ReadInt32_len: "length (remaining (snd (ReadInt32 sr))) \<le> length (remaining sr)"
  using read_buffer_len [of 4 sr] by (simp add: ReadInt32_def split_beta)

lemma ReadInt32_len_ok:
  "snd (fst (ReadInt32 sr)) = None \<Longrightarrow>
     length (remaining (snd (ReadInt32 sr))) < length (remaining sr)"
  using read_buffer_len_ok [of 4 sr] by (simp add: ReadInt32_def split_beta)

lemma discard_len: "length (remaining (snd (discard n sr))) \<le> length (remaining sr)"
  by (simp add: remaining_def discard_rest)

lemma discard_len_ok:
  "0 < n \<Longrightarrow> fst (discard n sr) = None \<Longrightarrow>
     length (remaining (snd (discard n sr))) < length (remaining sr)"
  by (auto simp: remaining_def discard_rest discard_err split: if_splits)

lemma readTypeSizeHeader_len:
  "length (remaining (snd (readTypeSizeHeader sr))) \<le> length (remaining sr)"
  using ReadInt8_len [of sr] ReadInt32_len [of "snd (ReadInt8 sr)"]
  by (auto simp: readTypeSizeHeader_def split_beta split: option.splits)

lemma readTypeSizeHeader_len_ok:
  "snd (snd (fst (readTypeSizeHeader sr))) = None \<Longrightarrow>
     length (remaining (snd (readTypeSizeHeader sr))) < length (remaining sr)"
  using ReadInt8_len_ok [of sr] ReadInt32_len [of "snd (ReadInt8 sr)"]
  by (auto simp: readTypeSizeHeader_def split_beta split: option.splits if_splits)

lemma ReadInt32_len_eq:
  "snd (fst (ReadInt32 sr)) = None \<Longrightarrow>
     length (remaining (snd (ReadInt32 sr))) + 4 = length (remaining sr)"
  using read_buffer_len_ok [of 4 sr] by (simp add: ReadInt32_def split_beta)

lemma readTypeSizeHeader_len_eq:
  "snd (snd (fst (readTypeSizeHeader sr))) = None \<Longrightarrow>
     length (remaining (snd (readTypeSizeHeader sr))) + 5 = length (remaining sr)"
  using read_buffer_len_ok [of 1 sr] ReadInt32_len_eq [of "snd (ReadInt8 sr)"]
  by (auto simp: readTypeSizeHeader_def ReadInt8_def split_beta split: option.splits if_splits)

text \<open>
  No call leaves more bytes in the source than it found, and a \<open>Skip\<close> (of any type,
  and so a \<open>skipStruct\<close>, \<open>skipMap\<close> or \<open>skipList\<close>) that returns no error has consumed
  at least one byte. The loops may return no error without consuming anything (no round).
\<close>

lemma Skip_family_consumes:
  "(\<forall>t sr e sr'. Skip fuel t sr = Some (e, sr') \<longrightarrow>
      length (remaining sr') \<le> length (remaining sr)
      \<and> (e = None \<longrightarrow> length (remaining sr') < length (remaining sr)))
 \<and> (\<forall>sr e sr'. skipStruct fuel sr = Some (e, sr') \<longrightarrow>
      length (remaining sr') \<le> length (remaining sr)
      \<and> (e = None \<longrightarrow> length (remaining sr') < length (remaining sr)))
 \<and> (\<forall>ft sr e sr'. skipStruct_loop fuel ft sr = Some (e, sr') \<longrightarrow>
      length (remaining sr') \<le> length (remaining sr))
 \<and> (\<forall>sr e sr'. skipMap fuel sr = Some (e, sr') \<longrightarrow>
      length (remaining sr') \<le> length (remaining sr)
      \<and> (e = None \<longrightarrow> length (remaining sr') < length (remaining sr)))
 \<and> (\<forall>i sz k v sr e sr'. skipMap_loop fuel i sz k v sr = Some (e, sr') \<longrightarrow>
      length (remaining sr') \<le> length (remaining sr))
 \<and> (\<forall>sr e sr'. skipList fuel sr = Some (e, sr') \<longrightarrow>
      length (remaining sr') \<le> length (remaining sr)
      \<and> (e = None \<longrightarrow> length (remaining sr') < length (remaining sr)))
 \<and> (\<forall>i sz t sr e sr'. skipList_loop fuel i sz t sr = Some (e, sr') \<longrightarrow>
      length (remaining sr') \<le> length (remaining sr))"
proof (induction fuel)
  case 0
  show ?case by simp
next
  case (Suc fuel)
  from Suc have
    "\<forall>t sr e sr'. Skip fuel t sr = Some (e, sr') \<longrightarrow>
      length (remaining sr') \<le> length (remaining sr)
      \<and> (e = None \<longrightarrow> length (remaining sr') < length (remaining sr))"
    "\<forall>sr e sr'. skipStruct fuel sr = Some (e, sr') \<longrightarrow>
      length (remaining sr') \<le> length (remaining sr)
      \<and> (e = None \<longrightarrow> length (remaining sr') < length (remaining sr))"
    "\<forall>ft sr e sr'. skipStruct_loop fuel ft sr = Some (e, sr') \<longrightarrow>
      length (remaining sr') \<le> length (remaining sr)"
    "\<forall>sr e sr'. skipMap fuel sr = Some (e, sr') \<longrightarrow>
      length (remaining sr') \<le> length (remaining sr)
      \<and> (e = None \<longrightarrow> length (remaining sr') < length (remaining sr))"
    "\<forall>i sz k v sr e sr'. skipMap_loop fuel i sz k v sr = Some (e, sr') \<longrightarrow>
      length (remaining sr') \<le> length (remaining sr)"
    "\<forall>sr e sr'. skipList fuel sr = Some (e, sr') \<longrightarrow>
      length (remaining sr') \<le> length (remaining sr)
      \<and> (e = None \<longrightarrow> length (remaining sr') < length (remaining sr))"
    "\<forall>i sz t sr e sr'. skipList_loop fuel i sz t sr = Some (e, sr') \<longrightarrow>
      length (remaining sr') \<le> length (remaining sr)"
    by simp_all
  note ih = this [rule_format]
  have 1: "length (remaining sr') \<le> length (remaining sr)
      \<and> (e = None \<longrightarrow> length (remaining sr') < length (remaining sr))"
    if "Skip (Suc fuel) t sr = Some (e, sr')" for t sr e sr'
  proof (cases "0 < fixedWidth t")
    case True
    then show ?thesis
      using that discard_len [of "fixedWidth t" sr] discard_len_ok [of "fixedWidth t" sr]
      by (auto simp: prod_eq_iff)
  next
    case False
    show ?thesis
    proof (cases "t = TBinary")
      case True
      then show ?thesis
        using that False ReadInt32_len [of sr] ReadInt32_len_ok [of sr]
          discard_len [of "sint (fst (fst (ReadInt32 sr)))" "snd (ReadInt32 sr)"]
        by (auto simp: split_beta prod_eq_iff split: if_splits option.splits)
    next
      case nb: False
      then show ?thesis
        using that False ih(2) [of sr e sr'] ih(4) [of sr e sr'] ih(6) [of sr e sr']
        by (auto split: if_splits)
    qed
  qed
  have 2: "length (remaining sr') \<le> length (remaining sr)
      \<and> (e = None \<longrightarrow> length (remaining sr') < length (remaining sr))"
    if "skipStruct (Suc fuel) sr = Some (e, sr')" for sr e sr'
    using that ReadInt8_len [of sr] ReadInt8_len_ok [of sr]
      ih(3) [of "fst (fst (ReadInt8 sr))" "snd (ReadInt8 sr)" e sr']
    by (auto simp: split_beta prod_eq_iff split: if_splits option.splits)
  have 3: "length (remaining sr') \<le> length (remaining sr)"
    if prem: "skipStruct_loop (Suc fuel) ft sr = Some (e, sr')" for ft sr e sr'
  proof (cases "ft = 0")
    case True
    then show ?thesis using prem by simp
  next
    case False
    let ?s1 = "snd (discard 2 sr)"
    have l1: "length (remaining ?s1) \<le> length (remaining sr)"
      by (rule discard_len)
    show ?thesis
    proof (cases "fst (discard 2 sr)")
      case (Some a)
      then show ?thesis using prem False l1 by (auto simp: split_beta)
    next
      case None
      then obtain e2 s2 where sk: "Skip fuel ft ?s1 = Some (e2, s2)"
        using prem False by (auto simp: split_beta split: option.splits)
      have l2: "length (remaining s2) \<le> length (remaining ?s1)"
        using ih(1) [OF sk] by simp
      show ?thesis
      proof (cases e2)
        case (Some a)
        then show ?thesis using prem False None sk l1 l2 by (auto simp: split_beta)
      next
        case n2: None
        have l3: "length (remaining (snd (ReadInt8 s2))) \<le> length (remaining s2)"
          by (rule ReadInt8_len)
        show ?thesis
        proof (cases "snd (fst (ReadInt8 s2))")
          case (Some a)
          then show ?thesis
            using prem False None sk n2 l1 l2 l3 by (auto simp: split_beta)
        next
          case n3: None
          then have "skipStruct_loop fuel (fst (fst (ReadInt8 s2))) (snd (ReadInt8 s2)) = Some (e, sr')"
            using prem False None sk n2 by (auto simp: split_beta)
          from ih(3) [OF this] show ?thesis
            using l1 l2 l3 by simp
        qed
      qed
    qed
  qed
  have 4: "length (remaining sr') \<le> length (remaining sr)
      \<and> (e = None \<longrightarrow> length (remaining sr') < length (remaining sr))"
    if "skipMap (Suc fuel) sr = Some (e, sr')" for sr e sr'
  proof -
    let ?s1 = "snd (ReadInt8 sr)"
    let ?s2 = "snd (ReadInt8 ?s1)"
    let ?s3 = "snd (ReadInt32 ?s2)"
    let ?n = "fst (fst (ReadInt32 ?s2))"
    let ?k = "fst (fst (ReadInt8 sr))"
    let ?v = "fst (fst (ReadInt8 ?s1))"
    have l1: "length (remaining ?s1) \<le> length (remaining sr)"
      and l2: "length (remaining ?s2) \<le> length (remaining ?s1)"
      and l3: "length (remaining ?s3) \<le> length (remaining ?s2)"
      by (rule ReadInt8_len ReadInt32_len)+
    have l1': "snd (fst (ReadInt8 sr)) = None \<Longrightarrow> length (remaining ?s1) < length (remaining sr)"
      by (rule ReadInt8_len_ok)
    have d: "length (remaining (snd (discard m ?s3))) \<le> length (remaining ?s3)" for m
      by (rule discard_len)
    have lp: "length (remaining sr') \<le> length (remaining ?s3)"
      if "skipMap_loop fuel 0 ?n ?k ?v ?s3 = Some (e, sr')"
      using ih(5) [OF that] .
    show ?thesis
      using that l1 l2 l3 l1' d [of "sint ?n * (fixedWidth ?k + fixedWidth ?v)"] lp
      by (auto simp: split_beta prod_eq_iff Let_def split: if_splits option.splits)
  qed
  have 5: "length (remaining sr') \<le> length (remaining sr)"
    if prem: "skipMap_loop (Suc fuel) i sz k v sr = Some (e, sr')" for i sz k v sr e sr'
  proof (cases "sint i < sint sz")
    case False
    then show ?thesis using prem by simp
  next
    case True
    then obtain e1 s1 where sk1: "Skip fuel k sr = Some (e1, s1)"
      using prem by (auto split: option.splits)
    have l1: "length (remaining s1) \<le> length (remaining sr)"
      using ih(1) [OF sk1] by simp
    show ?thesis
    proof (cases e1)
      case (Some a)
      then show ?thesis using prem True sk1 l1 by auto
    next
      case n1: None
      then obtain e2 s2 where sk2: "Skip fuel v s1 = Some (e2, s2)"
        using prem True sk1 by (auto split: option.splits)
      have l2: "length (remaining s2) \<le> length (remaining s1)"
        using ih(1) [OF sk2] by simp
      show ?thesis
      proof (cases e2)
        case (Some a)
        then show ?thesis using prem True sk1 n1 sk2 l1 l2 by auto
      next
        case n2: None
        then have "skipMap_loop fuel (i + 1) sz k v s2 = Some (e, sr')"
          using prem True sk1 n1 sk2 by auto
        from ih(5) [OF this] show ?thesis
          using l1 l2 by simp
      qed
    qed
  qed
  have 6: "length (remaining sr') \<le> length (remaining sr)
      \<and> (e = None \<longrightarrow> length (remaining sr') < length (remaining sr))"
    if "skipList (Suc fuel) sr = Some (e, sr')" for sr e sr'
  proof -
    let ?h = "readTypeSizeHeader sr"
    let ?s1 = "snd ?h"
    let ?t = "fst (fst ?h)"
    let ?sz = "fst (snd (fst ?h))"
    have l1: "length (remaining ?s1) \<le> length (remaining sr)"
      by (rule readTypeSizeHeader_len)
    have l1': "snd (snd (fst ?h)) = None \<Longrightarrow> length (remaining ?s1) < length (remaining sr)"
      by (rule readTypeSizeHeader_len_ok)
    have d: "length (remaining (snd (discard m ?s1))) \<le> length (remaining ?s1)" for m
      by (rule discard_len)
    have lp: "length (remaining sr') \<le> length (remaining ?s1)"
      if "skipList_loop fuel 0 ?sz ?t ?s1 = Some (e, sr')"
      using ih(7) [OF that] .
    show ?thesis
      using that l1 l1' d [of "fixedWidth ?t * ?sz"] lp
      by (auto simp: split_beta prod_eq_iff Let_def split: if_splits option.splits)
  qed
  have 7: "length (remaining sr') \<le> length (remaining sr)"
    if prem: "skipList_loop (Suc fuel) i sz t sr = Some (e, sr')" for i sz t sr e sr'
  proof (cases "i < sz")
    case False
    then show ?thesis using prem by simp
  next
    case True
    then obtain e1 s1 where sk1: "Skip fuel t sr = Some (e1, s1)"
      using prem by (auto split: option.splits)
    have l1: "length (remaining s1) \<le> length (remaining sr)"
      using ih(1) [OF sk1] by simp
    show ?thesis
    proof (cases e1)
      case (Some a)
      then show ?thesis using prem True sk1 l1 by auto
    next
      case n1: None
      then have "skipList_loop fuel (i + 1) sz t s1 = Some (e, sr')"
        using prem True sk1 by auto
      from ih(7) [OF this] show ?thesis
        using l1 by simp
    qed
  qed
  show ?case
    using 1 2 3 4 5 6 7 by blast
qed

subsection \<open>\<open>Skip\<close> returns, and its result does not depend on the fuel\<close>

lemmas Skip_consumes = Skip_family_consumes [THEN conjunct1, rule_format]

text \<open>
  Fuel of two more than the number of bytes left is enough for \<open>Skip\<close>: each nested
  call and each round of a loop that goes on has consumed a byte.
\<close>

lemma Skip_family_total:
  "(\<forall>t sr. length (remaining sr) + 2 \<le> fuel \<longrightarrow> Skip fuel t sr \<noteq> None)
 \<and> (\<forall>sr. length (remaining sr) + 1 \<le> fuel \<longrightarrow> skipStruct fuel sr \<noteq> None)
 \<and> (\<forall>ft sr. length (remaining sr) + 1 \<le> fuel \<longrightarrow> skipStruct_loop fuel ft sr \<noteq> None)
 \<and> (\<forall>sr. length (remaining sr) + 1 \<le> fuel \<longrightarrow> skipMap fuel sr \<noteq> None)
 \<and> (\<forall>i sz k v sr. length (remaining sr) + 3 \<le> fuel \<longrightarrow> skipMap_loop fuel i sz k v sr \<noteq> None)
 \<and> (\<forall>sr. length (remaining sr) + 1 \<le> fuel \<longrightarrow> skipList fuel sr \<noteq> None)
 \<and> (\<forall>i sz t sr. length (remaining sr) + 3 \<le> fuel \<longrightarrow> skipList_loop fuel i sz t sr \<noteq> None)"
proof (induction fuel)
  case 0
  show ?case by simp
next
  case (Suc fuel)
  from Suc have
    "\<forall>t sr. length (remaining sr) + 2 \<le> fuel \<longrightarrow> Skip fuel t sr \<noteq> None"
    "\<forall>sr. length (remaining sr) + 1 \<le> fuel \<longrightarrow> skipStruct fuel sr \<noteq> None"
    "\<forall>ft sr. length (remaining sr) + 1 \<le> fuel \<longrightarrow> skipStruct_loop fuel ft sr \<noteq> None"
    "\<forall>sr. length (remaining sr) + 1 \<le> fuel \<longrightarrow> skipMap fuel sr \<noteq> None"
    "\<forall>i sz k v sr. length (remaining sr) + 3 \<le> fuel \<longrightarrow> skipMap_loop fuel i sz k v sr \<noteq> None"
    "\<forall>sr. length (remaining sr) + 1 \<le> fuel \<longrightarrow> skipList fuel sr \<noteq> None"
    "\<forall>i sz t sr. length (remaining sr) + 3 \<le> fuel \<longrightarrow> skipList_loop fuel i sz t sr \<noteq> None"
    by simp_all
  note ih = this [rule_format]
  have 1: "Skip (Suc fuel) t sr \<noteq> None" if "length (remaining sr) + 2 \<le> Suc fuel" for t sr
    using that ih(2) [of sr] ih(4) [of sr] ih(6) [of sr]
    by (auto simp: split_beta split: option.splits)
  have 2: "skipStruct (Suc fuel) sr \<noteq> None" if "length (remaining sr) + 1 \<le> Suc fuel" for sr
    using that ReadInt8_len_ok [of sr] ih(3) [of "snd (ReadInt8 sr)" "fst (fst (ReadInt8 sr))"]
    by (auto simp: split_beta split: option.splits)
  have 3: "skipStruct_loop (Suc fuel) ft sr \<noteq> None"
    if bound: "length (remaining sr) + 1 \<le> Suc fuel" for ft sr
  proof (cases "ft \<noteq> 0 \<and> fst (discard 2 sr) = None")
    case False
    then show ?thesis by (auto simp: split_beta split: option.splits)
  next
    case True
    let ?s1 = "snd (discard 2 sr)"
    have l1: "length (remaining ?s1) + 2 \<le> length (remaining sr)"
      using True discard_len_ok [of 2 sr] discard_rest [of 2 sr] discard_err [of 2 sr]
      by (auto simp: remaining_def split: if_splits)
    then obtain e2 s2 where sk: "Skip fuel ft ?s1 = Some (e2, s2)"
      using ih(1) [of ?s1 ft] bound by fastforce
    have l2: "e2 = None \<Longrightarrow> length (remaining s2) < length (remaining ?s1)"
      using Skip_consumes [OF sk] by simp
    have l3: "snd (fst (ReadInt8 s2)) = None \<Longrightarrow>
        length (remaining (snd (ReadInt8 s2))) < length (remaining s2)"
      by (rule ReadInt8_len_ok)
    have "skipStruct_loop fuel (fst (fst (ReadInt8 s2))) (snd (ReadInt8 s2)) \<noteq> None"
      if "e2 = None" "snd (fst (ReadInt8 s2)) = None"
      using ih(3) [of "snd (ReadInt8 s2)"] l1 l2 l3 bound that by simp
    then show ?thesis
      using True sk by (auto simp: split_beta split: option.splits)
  qed
  have 4: "skipMap (Suc fuel) sr \<noteq> None" if bound: "length (remaining sr) + 1 \<le> Suc fuel" for sr
  proof -
    let ?s1 = "snd (ReadInt8 sr)"
    let ?s2 = "snd (ReadInt8 ?s1)"
    let ?s3 = "snd (ReadInt32 ?s2)"
    have l: "length (remaining ?s3) \<le> length (remaining ?s2)"
      "length (remaining ?s2) \<le> length (remaining ?s1)"
      "snd (fst (ReadInt8 sr)) = None \<Longrightarrow> length (remaining ?s1) < length (remaining sr)"
      "snd (fst (ReadInt8 ?s1)) = None \<Longrightarrow> length (remaining ?s2) < length (remaining ?s1)"
      "snd (fst (ReadInt32 ?s2)) = None \<Longrightarrow> length (remaining ?s3) < length (remaining ?s2)"
      by (rule ReadInt8_len ReadInt32_len ReadInt8_len_ok ReadInt32_len_ok; assumption?)+
    have "skipMap_loop fuel i sz k v ?s3 \<noteq> None"
      if "snd (fst (ReadInt8 sr)) = None" "snd (fst (ReadInt8 ?s1)) = None"
         "snd (fst (ReadInt32 ?s2)) = None" for i sz k v
      using ih(5) [of ?s3] l bound that by simp
    then show ?thesis
      by (auto simp: split_beta Let_def split: option.splits)
  qed
  have 5: "skipMap_loop (Suc fuel) i sz k v sr \<noteq> None"
    if bound: "length (remaining sr) + 3 \<le> Suc fuel" for i sz k v sr
  proof -
    obtain e1 s1 where sk1: "Skip fuel k sr = Some (e1, s1)"
      using ih(1) [of sr k] bound by fastforce
    have l1: "e1 = None \<Longrightarrow> length (remaining s1) < length (remaining sr)"
      using Skip_consumes [OF sk1] by simp
    show ?thesis
    proof (cases e1)
      case (Some a)
      then show ?thesis using sk1 by simp
    next
      case None
      obtain e2 s2 where sk2: "Skip fuel v s1 = Some (e2, s2)"
        using ih(1) [of s1 v] bound l1 [OF None] by fastforce
      have l2: "e2 = None \<Longrightarrow> length (remaining s2) < length (remaining s1)"
        using Skip_consumes [OF sk2] by simp
      have "skipMap_loop fuel (i + 1) sz k v s2 \<noteq> None" if "e2 = None"
        using ih(5) [of s2] bound l1 [OF None] l2 [OF that] by simp
      then show ?thesis
        using sk1 None sk2 by (auto split: option.splits)
    qed
  qed
  have 6: "skipList (Suc fuel) sr \<noteq> None" if bound: "length (remaining sr) + 1 \<le> Suc fuel" for sr
  proof -
    let ?h = "readTypeSizeHeader sr"
    have "skipList_loop fuel i sz t (snd ?h) \<noteq> None" if "snd (snd (fst ?h)) = None" for i sz t
      using ih(7) [of "snd ?h"] readTypeSizeHeader_len_eq [OF that] bound by simp
    then show ?thesis
      by (auto simp: split_beta Let_def split: option.splits)
  qed
  have 7: "skipList_loop (Suc fuel) i sz t sr \<noteq> None"
    if bound: "length (remaining sr) + 3 \<le> Suc fuel" for i sz t sr
  proof -
    obtain e1 s1 where sk1: "Skip fuel t sr = Some (e1, s1)"
      using ih(1) [of sr t] bound by fastforce
    have l1: "e1 = None \<Longrightarrow> length (remaining s1) < length (remaining sr)"
      using Skip_consumes [OF sk1] by simp
    have "skipList_loop fuel (i + 1) sz t s1 \<noteq> None" if "e1 = None"
      using ih(7) [of s1] bound l1 [OF that] by simp
    then show ?thesis
      using sk1 by (auto split: option.splits)
  qed
  show ?case
    using 1 2 3 4 5 6 7 by blast
qed

text \<open>More fuel does not change a result.\<close>

lemmas Skip_family_simps =
  Skip.simps skipStruct.simps skipStruct_loop.simps skipMap.simps skipMap_loop.simps
  skipList.simps skipList_loop.simps

lemma Skip_family_Suc:
  "(\<forall>t sr r. Skip fuel t sr = Some r \<longrightarrow> Skip (Suc fuel) t sr = Some r)
 \<and> (\<forall>sr r. skipStruct fuel sr = Some r \<longrightarrow> skipStruct (Suc fuel) sr = Some r)
 \<and> (\<forall>ft sr r. skipStruct_loop fuel ft sr = Some r \<longrightarrow> skipStruct_loop (Suc fuel) ft sr = Some r)
 \<and> (\<forall>sr r. skipMap fuel sr = Some r \<longrightarrow> skipMap (Suc fuel) sr = Some r)
 \<and> (\<forall>i sz k v sr r. skipMap_loop fuel i sz k v sr = Some r \<longrightarrow>
        skipMap_loop (Suc fuel) i sz k v sr = Some r)
 \<and> (\<forall>sr r. skipList fuel sr = Some r \<longrightarrow> skipList (Suc fuel) sr = Some r)
 \<and> (\<forall>i sz t sr r. skipList_loop fuel i sz t sr = Some r \<longrightarrow>
        skipList_loop (Suc fuel) i sz t sr = Some r)"
proof (induction fuel)
  case 0
  show ?case by simp
next
  case (Suc fuel)
  from Suc have
    "\<forall>t sr r. Skip fuel t sr = Some r \<longrightarrow> Skip (Suc fuel) t sr = Some r"
    "\<forall>sr r. skipStruct fuel sr = Some r \<longrightarrow> skipStruct (Suc fuel) sr = Some r"
    "\<forall>ft sr r. skipStruct_loop fuel ft sr = Some r \<longrightarrow> skipStruct_loop (Suc fuel) ft sr = Some r"
    "\<forall>sr r. skipMap fuel sr = Some r \<longrightarrow> skipMap (Suc fuel) sr = Some r"
    "\<forall>i sz k v sr r. skipMap_loop fuel i sz k v sr = Some r \<longrightarrow>
        skipMap_loop (Suc fuel) i sz k v sr = Some r"
    "\<forall>sr r. skipList fuel sr = Some r \<longrightarrow> skipList (Suc fuel) sr = Some r"
    "\<forall>i sz t sr r. skipList_loop fuel i sz t sr = Some r \<longrightarrow>
        skipList_loop (Suc fuel) i sz t sr = Some r"
    by simp_all
  note ih = this [rule_format]
  have 1: "Skip (Suc (Suc fuel)) t sr = Some r" if prem: "Skip (Suc fuel) t sr = Some r" for t sr r
    apply (insert prem)
    apply (subst (asm) Skip.simps(2))
    apply (subst Skip.simps(2))
    apply (auto simp del: Skip_family_simps simp add: ih split_beta split: option.splits if_splits)
    done
  have 2: "skipStruct (Suc (Suc fuel)) sr = Some r" if prem: "skipStruct (Suc fuel) sr = Some r" for sr r
    apply (insert prem)
    apply (subst (asm) skipStruct.simps(2))
    apply (subst skipStruct.simps(2))
    apply (auto simp del: Skip_family_simps simp add: ih split_beta split: option.splits if_splits)
    done
  have 3: "skipStruct_loop (Suc (Suc fuel)) ft sr = Some r"
    if prem: "skipStruct_loop (Suc fuel) ft sr = Some r" for ft sr r
    apply (insert prem)
    apply (subst (asm) skipStruct_loop.simps(2))
    apply (subst skipStruct_loop.simps(2))
    apply (auto simp del: Skip_family_simps simp add: ih split_beta split: option.splits if_splits)
    done
  have 4: "skipMap (Suc (Suc fuel)) sr = Some r" if prem: "skipMap (Suc fuel) sr = Some r" for sr r
    apply (insert prem)
    apply (subst (asm) skipMap.simps(2))
    apply (subst skipMap.simps(2))
    apply (auto simp del: Skip_family_simps simp add: ih split_beta Let_def split: option.splits if_splits)
    done
  have 5: "skipMap_loop (Suc (Suc fuel)) i sz k v sr = Some r"
    if prem: "skipMap_loop (Suc fuel) i sz k v sr = Some r" for i sz k v sr r
    apply (insert prem)
    apply (subst (asm) skipMap_loop.simps(2))
    apply (subst skipMap_loop.simps(2))
    apply (auto simp del: Skip_family_simps simp add: ih split_beta split: option.splits if_splits)
    done
  have 6: "skipList (Suc (Suc fuel)) sr = Some r" if prem: "skipList (Suc fuel) sr = Some r" for sr r
    apply (insert prem)
    apply (subst (asm) skipList.simps(2))
    apply (subst skipList.simps(2))
    apply (auto simp del: Skip_family_simps simp add: ih split_beta Let_def split: option.splits if_splits)
    done
  have 7: "skipList_loop (Suc (Suc fuel)) i sz t sr = Some r"
    if prem: "skipList_loop (Suc fuel) i sz t sr = Some r" for i sz t sr r
    apply (insert prem)
    apply (subst (asm) skipList_loop.simps(2))
    apply (subst skipList_loop.simps(2))
    apply (auto simp del: Skip_family_simps simp add: ih split_beta split: option.splits if_splits)
    done
  show ?case
    using 1 2 3 4 5 6 7 by blast
qed

lemmas Skip_total = Skip_family_total [THEN conjunct1, rule_format]
lemmas Skip_Suc = Skip_family_Suc [THEN conjunct1, rule_format]

lemma Skip_mono:
  assumes "Skip fuel t sr = Some r" and "fuel \<le> fuel'"
  shows "Skip fuel' t sr = Some r"
proof -
  have "Skip (fuel + k) t sr = Some r" for k
    by (induction k) (simp_all add: assms(1) Skip_Suc del: Skip.simps)
  from this [of "fuel' - fuel"] show ?thesis
    using assms(2) by simp
qed

text \<open>The loop of \<open>skipList\<close> skips \<open>sz - i\<close> elements.\<close>

lemma skip_elements_spec_Suc:
  "skip_elements_spec fuel n t sr = Some r \<Longrightarrow> skip_elements_spec (Suc fuel) n t sr = Some r"
proof (induction n arbitrary: sr)
  case 0
  then show ?case by simp
next
  case (Suc n)
  from Suc.prems obtain e s1 where sk: "Skip fuel t sr = Some (e, s1)"
    by (auto split: option.splits)
  have sk': "Skip (Suc fuel) t sr = Some (e, s1)"
    by (rule Skip_Suc [OF sk])
  show ?case
  proof (cases e)
    case None
    then have "skip_elements_spec fuel n t s1 = Some r"
      using Suc.prems sk by simp
    from Suc.IH [OF this] show ?thesis
      using None by (simp add: sk' del: Skip.simps)
  next
    case (Some a)
    then have "r = (Some a, s1)"
      using Suc.prems sk by simp
    then show ?thesis
      using Some by (simp add: sk' del: Skip.simps)
  qed
qed

lemma skipList_loop_elements:
  "skipList_loop fuel i sz t sr = Some r \<Longrightarrow> skip_elements_spec fuel (nat (sz - i)) t sr = Some r"
proof (induction fuel arbitrary: i sr)
  case 0
  then show ?case by simp
next
  case (Suc fuel)
  show ?case
  proof (cases "i < sz")
    case False
    then show ?thesis using Suc.prems by simp
  next
    case True
    then have n: "nat (sz - i) = Suc (nat (sz - (i + 1)))"
      by simp
    from Suc.prems True obtain e s1 where sk: "Skip fuel t sr = Some (e, s1)"
      by (auto split: option.splits)
    have sk': "Skip (Suc fuel) t sr = Some (e, s1)"
      by (rule Skip_Suc [OF sk])
    show ?thesis
    proof (cases e)
      case None
      then have "skipList_loop fuel (i + 1) sz t s1 = Some r"
        using Suc.prems True sk by simp
      from skip_elements_spec_Suc [OF Suc.IH [OF this]] show ?thesis
        unfolding n using None by (simp add: sk' del: Skip.simps)
    next
      case (Some a)
      then have "r = (Some a, s1)"
        using Suc.prems True sk by simp
      then show ?thesis
        unfolding n using Some by (simp add: sk' del: Skip.simps)
    qed
  qed
qed

text \<open>The header of a list or set that the first chunk can serve.\<close>

lemma readTypeSizeHeader_chunk:
  assumes "reader sr = (t # n3 # n2 # n1 # n0 # c) # cs" and "n = Uint32 [n3, n2, n1, n0]"
  shows "\<exists>sr1. readTypeSizeHeader sr =
            ((if sint n < 0 then 0 else t, if sint n < 0 then 0 else sint n,
              if sint n < 0 then Some (NegativeLength n) else None), sr1)
          \<and> reader sr1 = (if c = [] then cs else c # cs)"
proof -
  obtain s1 where r1: "ReadInt8 sr = ((t, None), s1)"
    and s1: "reader s1 = (n3 # n2 # n1 # n0 # c) # cs"
    using ReadInt8_chunk [OF assms(1)] by auto
  obtain s2 where r2: "ReadInt32 s1 = ((n, None), s2)"
    and s2: "reader s2 = (if c = [] then cs else c # cs)"
    using ReadInt32_chunk [OF s1] assms(2) by auto
  show ?thesis
    using s2 by (simp add: readTypeSizeHeader_def r1 r2)
qed

lemma Skip_TSet_TList: "Skip fuel TSet sr = Skip fuel TList sr"
  by (cases fuel) (simp_all add: fixedWidth_def wire_Type_defs)

subsection \<open>The source ends, or delivers short, before the bytes are complete\<close>

text \<open>
  A scalar read on a source with fewer bytes than the scalar has, and the reads of a
  header on a source with fewer bytes than the header has, report the unexpected-EOF
  error: the first read that the source cannot serve fails, and its error is returned.
\<close>

lemma ReadInt8_short:
  "length (remaining sr) < 1 \<Longrightarrow> snd (fst (ReadInt8 sr)) = Some ErrUnexpectedEOF"
  using read_buffer_short [of sr 1] by (simp add: ReadInt8_def split_beta)

lemma ReadInt16_short:
  "length (remaining sr) < 2 \<Longrightarrow> snd (fst (ReadInt16 sr)) = Some ErrUnexpectedEOF"
  using read_buffer_short [of sr 2] by (simp add: ReadInt16_def split_beta)

lemma ReadInt32_short:
  "length (remaining sr) < 4 \<Longrightarrow> snd (fst (ReadInt32 sr)) = Some ErrUnexpectedEOF"
  using read_buffer_short [of sr 4] by (simp add: ReadInt32_def split_beta)

lemma ReadInt8_len_eq:
  "snd (fst (ReadInt8 sr)) = None \<Longrightarrow>
     length (remaining (snd (ReadInt8 sr))) + 1 = length (remaining sr)"
  using read_buffer_len_ok [of 1 sr] by (simp add: ReadInt8_def split_beta)

lemma ReadStructEnd_short:
  assumes "length (remaining sr) < 1"
  shows "fst (ReadStructEnd sr) = Some ErrUnexpectedEOF"
  using ReadInt8_short [OF assms] by (simp add: ReadStructEnd_def split_beta)

lemma read_buffer_err_only:
  "snd (fst (read_buffer k sr)) = None \<or> snd (fst (read_buffer k sr)) = Some ErrUnexpectedEOF"
  by (cases "reader sr") (auto simp: read_buffer_err)

lemma ReadInt_err_only:
  "snd (fst (ReadInt8 sr)) = None \<or> snd (fst (ReadInt8 sr)) = Some ErrUnexpectedEOF"
  "snd (fst (ReadInt16 sr)) = None \<or> snd (fst (ReadInt16 sr)) = Some ErrUnexpectedEOF"
  "snd (fst (ReadInt32 sr)) = None \<or> snd (fst (ReadInt32 sr)) = Some ErrUnexpectedEOF"
  using read_buffer_err_only [of 1 sr] read_buffer_err_only [of 2 sr] read_buffer_err_only [of 4 sr]
  by (simp_all add: ReadInt8_def ReadInt16_def ReadInt32_def split_beta)

lemma ReadFieldBegin_short:
  assumes "length (remaining sr) < 3"
  shows "snd (fst (ReadFieldBegin sr)) = (False, Some ErrUnexpectedEOF)"
  using assms ReadInt_err_only(1) [of sr] ReadInt8_len_eq [of sr]
    ReadInt16_short [of "snd (ReadInt8 sr)"]
  by (auto simp: ReadFieldBegin_def split_beta Let_def split: option.splits)

lemma readTypeSizeHeader_short:
  assumes "length (remaining sr) < 5"
  shows "snd (snd (fst (readTypeSizeHeader sr))) = Some ErrUnexpectedEOF"
  using assms ReadInt_err_only(1) [of sr] ReadInt8_len_eq [of sr]
    ReadInt32_short [of "snd (ReadInt8 sr)"]
  by (auto simp: readTypeSizeHeader_def split_beta Let_def split: option.splits)

lemma ReadListBegin_short:
  assumes "length (remaining sr) < 5"
  shows "snd (fst (ReadListBegin sr)) = Some ErrUnexpectedEOF"
  using readTypeSizeHeader_short [OF assms]
  by (simp add: ReadListBegin_def split_beta Let_def)

lemma ReadSetBegin_short:
  assumes "length (remaining sr) < 5"
  shows "snd (fst (ReadSetBegin sr)) = Some ErrUnexpectedEOF"
  using readTypeSizeHeader_short [OF assms]
  by (simp add: ReadSetBegin_def split_beta Let_def)

lemma ReadMapBegin_short:
  assumes "length (remaining sr) < 6"
  shows "snd (fst (ReadMapBegin sr)) = Some ErrUnexpectedEOF"
  using assms ReadInt_err_only(1) [of sr] ReadInt8_len_eq [of sr]
    ReadInt_err_only(1) [of "snd (ReadInt8 sr)"] ReadInt8_len_eq [of "snd (ReadInt8 sr)"]
    ReadInt32_short [of "snd (ReadInt8 (snd (ReadInt8 sr)))"]
  by (auto simp: ReadMapBegin_def split_beta Let_def split: option.splits)

lemma ReadBinary_prefix_short:
  assumes "length (remaining sr) < 4"
  shows "snd (fst (ReadBinary thr sr)) = Some ErrUnexpectedEOF"
  using ReadInt32_short [OF assms] by (simp add: ReadBinary_def split_beta)

text \<open>The error of a scalar read inside a header read, or of the length prefix, is returned.\<close>

lemma header_error_first:
  assumes "snd (fst (ReadInt8 sr)) = Some e"
  shows "fst (ReadStructEnd sr) = Some e"
    and "snd (fst (ReadFieldBegin sr)) = (False, Some e)"
    and "snd (fst (ReadListBegin sr)) = Some e"
    and "snd (fst (ReadSetBegin sr)) = Some e"
    and "snd (fst (ReadMapBegin sr)) = Some e"
  using assms
  by (simp_all add: ReadStructEnd_def ReadFieldBegin_def ReadListBegin_def ReadSetBegin_def
        ReadMapBegin_def readTypeSizeHeader_def split_beta Let_def)

lemma header_error_second:
  assumes "ReadInt8 sr = ((v, None), sr1)"
  shows "snd (fst (ReadInt16 sr1)) = Some e \<Longrightarrow> snd (fst (ReadFieldBegin sr)) = (False, Some e)"
    and "snd (fst (ReadInt32 sr1)) = Some e \<Longrightarrow> snd (fst (ReadListBegin sr)) = Some e"
    and "snd (fst (ReadInt32 sr1)) = Some e \<Longrightarrow> snd (fst (ReadSetBegin sr)) = Some e"
    and "snd (fst (ReadInt8 sr1)) = Some e \<Longrightarrow> snd (fst (ReadMapBegin sr)) = Some e"
  using assms
  by (simp_all add: ReadFieldBegin_def ReadListBegin_def ReadSetBegin_def
        ReadMapBegin_def readTypeSizeHeader_def split_beta Let_def)

lemma header_error_third:
  assumes "ReadInt8 sr = ((v, None), sr1)" "ReadInt8 sr1 = ((v', None), sr2)"
    and "snd (fst (ReadInt32 sr2)) = Some e"
  shows "snd (fst (ReadMapBegin sr)) = Some e"
  using assms by (simp add: ReadMapBegin_def split_beta Let_def)

lemma ReadBinary_error_prefix:
  assumes "snd (fst (ReadInt32 sr)) = Some e"
  shows "snd (fst (ReadBinary thr sr)) = Some e" and "snd (fst (ReadString thr sr)) = Some e"
  using assms by (simp_all add: ReadBinary_def ReadString_def split_beta)

text \<open>
  A read that finds fewer bytes in the first chunk than it asks for fails, also when
  more chunks follow. \<open>ReadBinary\<close> up to the threshold reads the payload with one
  \<open>read\<close>, and fails like it; above the threshold it copies with \<open>io.CopyN\<close>, which reads
  chunk after chunk, and returns the payload whenever the source holds it.
\<close>

lemma read_buffer_short_delivery:
  assumes "reader sr = c # cs" "length c < k"
  shows "snd (fst (read_buffer k sr)) = Some ErrUnexpectedEOF"
  using assms by (simp add: read_buffer_err)

lemma scalar_short_delivery:
  assumes "reader sr = c # cs"
  shows "length c < 1 \<Longrightarrow> snd (fst (ReadBool sr)) = Some ErrUnexpectedEOF"
    and "length c < 1 \<Longrightarrow> snd (fst (ReadInt8 sr)) = Some ErrUnexpectedEOF"
    and "length c < 2 \<Longrightarrow> snd (fst (ReadInt16 sr)) = Some ErrUnexpectedEOF"
    and "length c < 4 \<Longrightarrow> snd (fst (ReadInt32 sr)) = Some ErrUnexpectedEOF"
    and "length c < 8 \<Longrightarrow> snd (fst (ReadInt64 sr)) = Some ErrUnexpectedEOF"
    and "length c < 8 \<Longrightarrow> snd (fst (ReadDouble sr)) = Some ErrUnexpectedEOF"
  using read_buffer_short_delivery [OF assms, of 1] read_buffer_short_delivery [OF assms, of 2]
    read_buffer_short_delivery [OF assms, of 4] read_buffer_short_delivery [OF assms, of 8]
  by (simp_all add: ReadBool_def ReadInt8_def ReadInt16_def ReadInt32_def ReadInt64_def
        ReadDouble_def split_beta)

lemma ReadBinary_short_delivery:
  assumes r: "ReadInt32 sr = ((n, None), sr1)" and pos: "0 < sint n" and thr: "sint n \<le> thr"
    and src: "reader sr1 = c # cs" and short: "int (length c) < sint n"
  shows "snd (fst (ReadBinary thr sr)) = Some ErrUnexpectedEOF"
proof -
  have n0: "n \<noteq> 0"
    using pos by auto
  have "snd (snd (fst (read (replicate (nat (sint n)) 0) sr1))) = Some ErrUnexpectedEOF"
    using pos short by (simp add: read_err src)
  then show ?thesis
    using pos n0 thr by (simp add: ReadBinary_def r split_beta)
qed

lemma ReadBinary_streamed:
  assumes r: "ReadInt32 sr = ((n, None), sr1)" and pos: "0 < sint n" and thr: "thr < sint n"
    and enough: "sint n \<le> int (length (remaining sr1))"
  shows "fst (ReadBinary thr sr) = (Some (take (nat (sint n)) (remaining sr1)), None)"
proof -
  have n0: "n \<noteq> 0"
    using pos by auto
  have "fst (CopyN (sint n) (reader sr1)) = (take (nat (sint n)) (remaining sr1), None)"
    using pos enough CopyN_loop_bytes [of "nat (sint n)" "reader sr1"]
      CopyN_loop_err [of "nat (sint n)" "reader sr1"]
    by (simp add: CopyN_def remaining_def prod_eq_iff)
  then show ?thesis
    using pos n0 thr by (simp add: ReadBinary_def r split_beta)
qed

text \<open>\<open>Skip\<close> on a source shorter than the fixed width, or than the header, of the value.\<close>

lemma Skip_short:
  assumes "(0 < fixedWidth t \<and> int (length (remaining sr)) < fixedWidth t)
           \<or> (t = TBinary \<and> length (remaining sr) < 4)
           \<or> (t = TStruct \<and> length (remaining sr) < 1)
           \<or> (t = TMap \<and> length (remaining sr) < 6)
           \<or> ((t = TSet \<or> t = TList) \<and> length (remaining sr) < 5)"
  shows "\<exists>sr'. Skip (Suc (Suc fuel)) t sr = Some (Some ErrUnexpectedEOF, sr')"
proof -
  have w: "\<not> 0 < fixedWidth TBinary" "\<not> 0 < fixedWidth TStruct" "\<not> 0 < fixedWidth TMap"
    "\<not> 0 < fixedWidth TSet" "\<not> 0 < fixedWidth TList"
    by (simp_all add: fixedWidth_def wire_Type_defs)
  have ne: "TStruct \<noteq> TBinary" "TMap \<noteq> TBinary" "TMap \<noteq> TStruct" "TSet \<noteq> TBinary"
    "TSet \<noteq> TStruct" "TSet \<noteq> TMap" "TList \<noteq> TBinary" "TList \<noteq> TStruct" "TList \<noteq> TMap"
    by (simp_all add: wire_Type_defs)
  have fixed: ?thesis if "0 < fixedWidth t" "int (length (remaining sr)) < fixedWidth t"
  proof -
    have "fst (discard (fixedWidth t) sr) = Some ErrUnexpectedEOF"
      using that by (simp add: discard_err remaining_def)
    then show ?thesis
      using that by (cases "discard (fixedWidth t) sr") simp
  qed
  have binary: ?thesis if "t = TBinary" "length (remaining sr) < 4"
    using that w ReadInt32_short [of sr] by (auto simp: split_beta)
  have struct: ?thesis if "t = TStruct" "length (remaining sr) < 1"
    using that w ne ReadInt8_short [of sr] by (auto simp: split_beta)
  have map: ?thesis if "t = TMap" "length (remaining sr) < 6"
  proof -
    have "\<exists>sr'. skipMap (Suc fuel) sr = Some (Some ErrUnexpectedEOF, sr')"
      using that(2) ReadInt_err_only(1) [of sr] ReadInt8_len_eq [of sr]
        ReadInt_err_only(1) [of "snd (ReadInt8 sr)"] ReadInt8_len_eq [of "snd (ReadInt8 sr)"]
        ReadInt32_short [of "snd (ReadInt8 (snd (ReadInt8 sr)))"]
      by (auto simp: split_beta Let_def split: option.splits)
    then show ?thesis
      using that(1) w ne by simp
  qed
  have list: ?thesis if "t = TSet \<or> t = TList" "length (remaining sr) < 5"
  proof -
    have "\<exists>sr'. skipList (Suc fuel) sr = Some (Some ErrUnexpectedEOF, sr')"
      using readTypeSizeHeader_short [OF that(2)] by (auto simp: split_beta)
    then show ?thesis
      using that(1) w ne by auto
  qed
  show ?thesis
    using assms fixed binary struct map list by blast
qed

subsection \<open>\<open>Skip\<close> on a source that ends inside the value\<close>

text \<open>
  The source cut after \<open>r\<close> bytes holds the first \<open>r\<close> bytes. A step that is
  \<open>truncation_safe\<close> can be followed by another one, and a read that is
  \<open>read_truncation_safe\<close> by a step for each value it may return.
\<close>

lemma concat_take_source: "concat (take_source r src) = take r (concat src)"
  by (induction src arbitrary: r) auto

lemma remaining_truncate_source [simp]:
  "remaining (truncate_source r sr) = take r (remaining sr)"
  by (simp add: truncate_source_def remaining_def concat_take_source)

lemma buffer_truncate_source [simp]: "buffer (truncate_source r sr) = buffer sr"
  by (simp add: truncate_source_def)

lemma reader_truncate_source [simp]: "reader (truncate_source r sr) = take_source r (reader sr)"
  by (simp add: truncate_source_def)

lemma truncation_safeD:
  assumes "truncation_safe op" "op f = Some (None, f')"
  shows "length (remaining f') \<le> length (remaining f)"
    and "consumed f f' \<le> r \<Longrightarrow>
           op (truncate_source r f) = Some (None, truncate_source (r - consumed f f') f')"
    and "r < consumed f f' \<Longrightarrow> \<exists>t'. op (truncate_source r f) = Some (Some ErrUnexpectedEOF, t')"
  using assms unfolding truncation_safe_def by blast+

lemma read_truncation_safeD:
  assumes "read_truncation_safe k rd" "rd f = ((v, None), f')"
  shows "length (remaining f) = length (remaining f') + k"
    and "k \<le> r \<Longrightarrow> rd (truncate_source r f) = ((v, None), truncate_source (r - k) f')"
    and "r < k \<Longrightarrow> snd (fst (rd (truncate_source r f))) = Some ErrUnexpectedEOF"
  using assms unfolding read_truncation_safe_def by blast+

lemma truncation_safeI:
  assumes "\<And>f f'. op f = Some (None, f') \<Longrightarrow> length (remaining f') \<le> length (remaining f)"
    and "\<And>f f' r. op f = Some (None, f') \<Longrightarrow> consumed f f' \<le> r \<Longrightarrow>
           op (truncate_source r f) = Some (None, truncate_source (r - consumed f f') f')"
    and "\<And>f f' r. op f = Some (None, f') \<Longrightarrow> r < consumed f f' \<Longrightarrow>
           \<exists>t'. op (truncate_source r f) = Some (Some ErrUnexpectedEOF, t')"
  shows "truncation_safe op"
  unfolding truncation_safe_def using assms by blast

lemma truncation_safe_return: "truncation_safe (\<lambda>sr. Some (None, sr))"
  by (rule truncation_safeI) (simp_all add: consumed_def)

lemma truncation_safe_error: "truncation_safe (\<lambda>sr. Some (Some e, sr))"
  by (rule truncation_safeI) simp_all

lemma truncation_safe_if:
  assumes "c \<Longrightarrow> truncation_safe a" "\<not> c \<Longrightarrow> truncation_safe b"
  shows "truncation_safe (if c then a else b)"
  using assms by simp

lemma truncation_safe_then_skip:
  assumes a: "truncation_safe a" and b: "truncation_safe b"
  shows "truncation_safe (then_skip a b)"
proof (rule truncation_safeI)
  fix f f'
  assume run: "then_skip a b f = Some (None, f')"
  from run obtain f1 where a1: "a f = Some (None, f1)" and b1: "b f1 = Some (None, f')"
    by (auto simp: then_skip_def split: option.splits)
  note A = truncation_safeD [OF a a1]
  note B = truncation_safeD [OF b b1]
  have m: "consumed f f' = consumed f f1 + consumed f1 f'"
    using A(1) B(1) by (simp add: consumed_def)
  show "length (remaining f') \<le> length (remaining f)"
    using A(1) B(1) by simp
  show "then_skip a b (truncate_source r f) = Some (None, truncate_source (r - consumed f f') f')"
    if "consumed f f' \<le> r" for r
  proof -
    have "consumed f f1 \<le> r" "consumed f1 f' \<le> r - consumed f f1"
      using that m by simp_all
    then show ?thesis
      using A(2) [of r] B(2) [of "r - consumed f f1"] by (simp add: then_skip_def m)
  qed
  show "\<exists>t'. then_skip a b (truncate_source r f) = Some (Some ErrUnexpectedEOF, t')"
    if "r < consumed f f'" for r
  proof (cases "r < consumed f f1")
    case True
    then show ?thesis
      using A(3) [of r] by (auto simp: then_skip_def)
  next
    case False
    then have "consumed f f1 \<le> r" "r - consumed f f1 < consumed f1 f'"
      using that m by simp_all
    then show ?thesis
      using A(2) [of r] B(3) [of "r - consumed f f1"] by (auto simp: then_skip_def)
  qed
qed

lemma truncation_safe_then_read:
  assumes rd: "read_truncation_safe k rd" and b: "\<And>v. truncation_safe (b v)"
  shows "truncation_safe (then_read rd b)"
proof (rule truncation_safeI)
  fix f f'
  assume run: "then_read rd b f = Some (None, f')"
  from run obtain v f1 where a1: "rd f = ((v, None), f1)" and b1: "b v f1 = Some (None, f')"
    by (auto simp: then_read_def split_beta prod_eq_iff split: option.splits)
  note A = read_truncation_safeD [OF rd a1]
  note B = truncation_safeD [OF b b1]
  have m: "consumed f f' = k + consumed f1 f'"
    using A(1) B(1) by (simp add: consumed_def)
  show "length (remaining f') \<le> length (remaining f)"
    using A(1) B(1) by simp
  show "then_read rd b (truncate_source r f) = Some (None, truncate_source (r - consumed f f') f')"
    if "consumed f f' \<le> r" for r
  proof -
    have "k \<le> r" "consumed f1 f' \<le> r - k"
      using that m by simp_all
    then show ?thesis
      using A(2) [of r] B(2) [of "r - k"] by (simp add: then_read_def m)
  qed
  show "\<exists>t'. then_read rd b (truncate_source r f) = Some (Some ErrUnexpectedEOF, t')"
    if "r < consumed f f'" for r
  proof (cases "r < k")
    case True
    then show ?thesis
      using A(3) [of r] by (auto simp: then_read_def split_beta)
  next
    case False
    then have "k \<le> r" "r - k < consumed f1 f'"
      using that m by simp_all
    then show ?thesis
      using A(2) [of r] B(3) [of "r - k"] by (auto simp: then_read_def)
  qed
qed

text \<open>The primitive steps: a read into the scratch buffer, and \<open>discard\<close>.\<close>

lemma read_buffer_truncate:
  assumes ok: "snd (fst (read_buffer k f)) = None" and k: "0 < k" "k \<le> r"
  shows "read_buffer k (truncate_source r f)
           = (fst (read_buffer k f), truncate_source (r - k) (snd (read_buffer k f)))"
proof -
  from ok obtain c cs where rd: "reader f = c # cs" and len: "k \<le> length c"
    by (cases "reader f") (auto simp: read_buffer_err split: if_splits)
  show ?thesis
    using k len
    by (auto simp: read_buffer_def read_def Let_def truncate_source_def rd drop_take min_def
          cong: if_cong)
qed

lemma CopyN_loop_take_source:
  "n \<le> r \<Longrightarrow> n \<le> length (concat src) \<Longrightarrow>
     CopyN_loop n (take_source r src)
       = (fst (CopyN_loop n src), take_source (r - n) (snd (CopyN_loop n src)))"
proof (induction src arbitrary: n r)
  case Nil
  then show ?case by simp
next
  case (Cons c cs)
  show ?case
  proof (cases "n = 0")
    case True
    then show ?thesis
      by (cases "take_source r (c # cs)") simp_all
  next
    case n: False
    show ?thesis
    proof (cases "length c \<le> n")
      case True
      have "CopyN_loop (n - length c) (take_source (r - length c) cs)
              = (fst (CopyN_loop (n - length c) cs),
                 take_source (r - length c - (n - length c)) (snd (CopyN_loop (n - length c) cs)))"
        using Cons.prems True by (intro Cons.IH) simp_all
      then show ?thesis
        using Cons.prems True n by (simp add: split_beta)
    next
      case False
      then show ?thesis
        using Cons.prems n by (auto simp: drop_take min_def)
    qed
  qed
qed

lemma discard_truncate:
  assumes ok: "fst (discard n f) = None" and r: "nat n \<le> r"
  shows "discard n (truncate_source r f) = (None, truncate_source (r - nat n) (snd (discard n f)))"
proof (cases "n \<le> 0")
  case True
  then show ?thesis
    by (simp add: discard_def CopyN_def truncate_source_def)
next
  case False
  from ok have len: "nat n \<le> length (concat (reader f))"
    using False by (simp add: discard_err split: if_splits)
  have e: "snd (fst (CopyN_loop (nat n) (reader f))) = None"
    using len by (simp add: CopyN_loop_err)
  show ?thesis
    using False e CopyN_loop_take_source [OF r len]
    by (simp add: discard_def CopyN_def truncate_source_def split_beta)
qed

lemma truncation_safe_discard: "truncation_safe (\<lambda>sr. Some (discard n sr))"
proof (rule truncation_safeI)
  fix f f'
  assume "Some (discard n f) = Some (None, f')"
  then have d: "discard n f = (None, f')"
    by simp
  have ok: "fst (discard n f) = None" and f': "f' = snd (discard n f)"
    using d by simp_all
  have len: "n \<le> int (length (remaining f))"
    using ok by (simp add: discard_err remaining_def split: if_splits)
  have rest: "remaining f' = drop (nat n) (remaining f)"
    using discard_rest [of n f] by (simp add: f' remaining_def)
  have m: "consumed f f' = nat n"
    using len by (simp add: consumed_def rest)
  show "length (remaining f') \<le> length (remaining f)"
    by (simp add: rest)
  show "Some (discard n (truncate_source r f)) = Some (None, truncate_source (r - consumed f f') f')"
    if "consumed f f' \<le> r" for r
    using discard_truncate [OF ok, of r] that unfolding m by (simp add: f')
  show "\<exists>t'. Some (discard n (truncate_source r f)) = Some (Some ErrUnexpectedEOF, t')"
    if "r < consumed f f'" for r
  proof -
    have "fst (discard n (truncate_source r f)) = Some ErrUnexpectedEOF"
      using that m discard_err [of n "truncate_source r f"]
      by (simp add: concat_take_source)
    then show ?thesis
      by (cases "discard n (truncate_source r f)") simp
  qed
qed

lemma read_buffer_truncation:
  assumes rb: "read_buffer k f = ((bs, None), f')" and k: "0 < k"
  shows "length (remaining f) = length (remaining f') + k"
    and "k \<le> r \<Longrightarrow> read_buffer k (truncate_source r f) = ((bs, None), truncate_source (r - k) f')"
    and "r < k \<Longrightarrow> snd (fst (read_buffer k (truncate_source r f))) = Some ErrUnexpectedEOF"
proof -
  show "length (remaining f) = length (remaining f') + k"
    using read_buffer_consumes [OF rb] by simp
  show "read_buffer k (truncate_source r f) = ((bs, None), truncate_source (r - k) f')" if "k \<le> r"
    using read_buffer_truncate [of k f r] rb k that by simp
  show "snd (fst (read_buffer k (truncate_source r f))) = Some ErrUnexpectedEOF" if "r < k"
    using that by (intro read_buffer_short) simp
qed

lemma read_truncation_safe_ReadInt8: "read_truncation_safe 1 ReadInt8"
  unfolding read_truncation_safe_def
proof (intro allI impI)
  fix f v f'
  assume "ReadInt8 f = ((v, None), f')"
  then obtain bs where rb: "read_buffer 1 f = ((bs, None), f')" and v: "v = bs ! 0"
    by (auto simp: ReadInt8_def split_beta prod_eq_iff)
  show "length (remaining f) = length (remaining f') + 1
        \<and> (\<forall>r. (1 \<le> r \<longrightarrow> ReadInt8 (truncate_source r f) = ((v, None), truncate_source (r - 1) f'))
              \<and> (r < 1 \<longrightarrow> snd (fst (ReadInt8 (truncate_source r f))) = Some ErrUnexpectedEOF))"
    using read_buffer_truncation [OF rb]
    by (simp add: ReadInt8_def v split_beta)
qed

lemma read_truncation_safe_ReadInt32: "read_truncation_safe 4 ReadInt32"
  unfolding read_truncation_safe_def
proof (intro allI impI)
  fix f v f'
  assume "ReadInt32 f = ((v, None), f')"
  then obtain bs where rb: "read_buffer 4 f = ((bs, None), f')" and v: "v = Uint32 bs"
    by (auto simp: ReadInt32_def split_beta prod_eq_iff)
  show "length (remaining f) = length (remaining f') + 4
        \<and> (\<forall>r. (4 \<le> r \<longrightarrow> ReadInt32 (truncate_source r f) = ((v, None), truncate_source (r - 4) f'))
              \<and> (r < 4 \<longrightarrow> snd (fst (ReadInt32 (truncate_source r f))) = Some ErrUnexpectedEOF))"
    using read_buffer_truncation [OF rb]
    by (simp add: ReadInt32_def v split_beta)
qed

text \<open>The seven functions as sequences of steps.\<close>

lemma Skip_then:
  "Skip (Suc fuel) t =
     (if fixedWidth t > 0 then (\<lambda>sr. Some (discard (fixedWidth t) sr))
      else if t = TBinary then
        then_read ReadInt32
          (\<lambda>length. if sint length < 0 then (\<lambda>sr. Some (Some (NegativeLength length), sr))
                     else (\<lambda>sr. Some (discard (sint length) sr)))
      else if t = TStruct then skipStruct fuel
      else if t = TMap then skipMap fuel
      else if t = TSet then skipList fuel
      else if t = TList then skipList fuel
      else (\<lambda>sr. Some (Some (UnknownTType t), sr)))"
  by (rule ext) (auto simp: then_read_def split_beta split: option.splits)

lemma skipStruct_then:
  "skipStruct (Suc fuel) = then_read ReadInt8 (\<lambda>fieldType. skipStruct_loop fuel fieldType)"
  by (rule ext) (auto simp: then_read_def split_beta split: option.splits)

lemma skipStruct_loop_then:
  "skipStruct_loop (Suc fuel) fieldType =
     (if fieldType \<noteq> 0 then
        then_skip (\<lambda>sr. Some (discard 2 sr))
          (then_skip (Skip fuel fieldType)
             (then_read ReadInt8 (\<lambda>fieldType. skipStruct_loop fuel fieldType)))
      else (\<lambda>sr. Some (None, sr)))"
  by (rule ext) (auto simp: then_read_def then_skip_def split_beta split: option.splits)

lemma skipMap_then:
  "skipMap (Suc fuel) =
     then_read ReadInt8 (\<lambda>key.
       then_read ReadInt8 (\<lambda>value.
         then_read ReadInt32 (\<lambda>size.
           if sint size < 0 then (\<lambda>sr. Some (Some (NegativeLength size), sr))
           else if fixedWidth key > 0 \<and> fixedWidth value > 0 then
             (\<lambda>sr. Some (discard (sint size * (fixedWidth key + fixedWidth value)) sr))
           else skipMap_loop fuel 0 size key value)))"
  by (rule ext) (auto simp: then_read_def split_beta Let_def split: option.splits)

lemma skipMap_loop_then:
  "skipMap_loop (Suc fuel) i sz key value =
     (if sint i < sint sz then
        then_skip (Skip fuel key)
          (then_skip (Skip fuel value) (skipMap_loop fuel (i + 1) sz key value))
      else (\<lambda>sr. Some (None, sr)))"
  by (rule ext) (auto simp: then_skip_def split_beta split: option.splits)

lemma skipList_then:
  "skipList (Suc fuel) =
     then_read ReadInt8 (\<lambda>elemType.
       then_read ReadInt32 (\<lambda>size.
         if sint size < 0 then (\<lambda>sr. Some (Some (NegativeLength size), sr))
         else if fixedWidth elemType > 0 then
           (\<lambda>sr. Some (discard (fixedWidth elemType * sint size) sr))
         else skipList_loop fuel 0 (sint size) elemType))"
  by (rule ext)
    (auto simp: then_read_def readTypeSizeHeader_def split_beta Let_def split: option.splits)

lemma skipList_loop_then:
  "skipList_loop (Suc fuel) i sz elemType =
     (if i < sz then then_skip (Skip fuel elemType) (skipList_loop fuel (i + 1) sz elemType)
      else (\<lambda>sr. Some (None, sr)))"
  by (rule ext) (auto simp: then_skip_def split_beta split: option.splits)

text \<open>
  By induction on the fuel, \<open>Skip\<close> and its helpers are \<open>truncation_safe\<close>: on a source
  that ends inside a value they would skip, they report the unexpected-EOF error.
\<close>

lemma truncation_safe_no_fuel:
  "truncation_safe (Skip 0 t)" "truncation_safe (skipStruct 0)"
  "truncation_safe (skipStruct_loop 0 ft)" "truncation_safe (skipMap 0)"
  "truncation_safe (skipMap_loop 0 i sz k v)" "truncation_safe (skipList 0)"
  "truncation_safe (skipList_loop 0 j n et)"
  by (simp_all add: truncation_safe_def)

lemmas truncation_safe_intros =
  truncation_safe_if truncation_safe_return truncation_safe_error truncation_safe_discard
  truncation_safe_then_skip
  truncation_safe_then_read [OF read_truncation_safe_ReadInt8]
  truncation_safe_then_read [OF read_truncation_safe_ReadInt32]

lemma Skip_family_truncation_safe:
  "(\<forall>t. truncation_safe (Skip fuel t))
   \<and> truncation_safe (skipStruct fuel)
   \<and> (\<forall>ft. truncation_safe (skipStruct_loop fuel ft))
   \<and> truncation_safe (skipMap fuel)
   \<and> (\<forall>i sz k v. truncation_safe (skipMap_loop fuel i sz k v))
   \<and> truncation_safe (skipList fuel)
   \<and> (\<forall>i sz t. truncation_safe (skipList_loop fuel i sz t))"
proof (induction fuel)
  case 0
  show ?case
    by (intro conjI allI truncation_safe_no_fuel)
next
  case (Suc fuel)
  from Suc have ih:
    "\<And>t. truncation_safe (Skip fuel t)"
    "truncation_safe (skipStruct fuel)"
    "\<And>ft. truncation_safe (skipStruct_loop fuel ft)"
    "truncation_safe (skipMap fuel)"
    "\<And>i sz k v. truncation_safe (skipMap_loop fuel i sz k v)"
    "truncation_safe (skipList fuel)"
    "\<And>i sz t. truncation_safe (skipList_loop fuel i sz t)"
    by simp_all
  have 1: "truncation_safe (Skip (Suc fuel) t)" for t
    unfolding Skip_then by (intro truncation_safe_intros ih)
  have 2: "truncation_safe (skipStruct (Suc fuel))"
    unfolding skipStruct_then by (intro truncation_safe_intros ih)
  have 3: "truncation_safe (skipStruct_loop (Suc fuel) ft)" for ft
    unfolding skipStruct_loop_then by (intro truncation_safe_intros ih)
  have 4: "truncation_safe (skipMap (Suc fuel))"
    unfolding skipMap_then by (intro truncation_safe_intros ih)
  have 5: "truncation_safe (skipMap_loop (Suc fuel) i sz k v)" for i sz k v
    unfolding skipMap_loop_then by (intro truncation_safe_intros ih)
  have 6: "truncation_safe (skipList (Suc fuel))"
    unfolding skipList_then by (intro truncation_safe_intros ih)
  have 7: "truncation_safe (skipList_loop (Suc fuel) i sz t)" for i sz t
    unfolding skipList_loop_then by (intro truncation_safe_intros ih)
  show ?case
    by (intro conjI allI 1 2 3 4 5 6 7)
qed

lemma Skip_truncated:
  assumes "Skip fuel t sr = Some (None, sr')" and "r < consumed sr sr'"
  shows "\<exists>sr''. Skip fuel t (truncate_source r sr) = Some (Some ErrUnexpectedEOF, sr'')"
proof -
  have "truncation_safe (Skip fuel t)"
    using Skip_family_truncation_safe [of fuel] by blast
  then show ?thesis
    using assms by (rule truncation_safeD(3))
qed

subsection \<open>The enum compiler\<close>

lemma compileEnum_items_Inr:
  assumes "compileEnum_items enumName used prev astItems = Inr items"
  shows "map item_Name items = map ast_item_Name astItems
       \<and> (\<forall>i < length astItems.
            item_Value (items ! i) =
              (case ast_item_Value (astItems ! i) of
                 Some v \<Rightarrow> v
               | None \<Rightarrow>
                   (case (if i = 0 then prev else Some (item_Value (items ! (i - 1)))) of
                      None \<Rightarrow> 0
                    | Some p \<Rightarrow> p + 1)))"
  using assms
proof (induction astItems arbitrary: used prev items)
  case Nil
  then show ?case by simp
next
  case (Cons a rest)
  let ?val = "case ast_item_Value a of
                  Some v \<Rightarrow> v
                | None \<Rightarrow> (case prev of None \<Rightarrow> 0 | Some p \<Rightarrow> p + 1)"
  from Cons.prems obtain items' where
    rest: "compileEnum_items enumName (ast_item_Name a # used) (Some ?val) rest = Inr items'"
    and items: "items = EnumItem (ast_item_Name a) ?val # items'"
    by (auto simp: Let_def split: if_splits sum.splits)
  note ih = Cons.IH [OF rest]
  have names: "map item_Name items = map ast_item_Name (a # rest)"
    using ih by (simp add: items)
  have vals: "item_Value (items ! i) =
              (case ast_item_Value ((a # rest) ! i) of
                 Some v \<Rightarrow> v
               | None \<Rightarrow>
                   (case (if i = 0 then prev else Some (item_Value (items ! (i - 1)))) of
                      None \<Rightarrow> 0
                    | Some p \<Rightarrow> p + 1))" if "i < length (a # rest)" for i
  proof (cases i)
    case 0
    then show ?thesis by (simp add: items)
  next
    case (Suc j)
    then have j: "j < length rest"
      using that by simp
    from ih have "item_Value (items' ! j) =
              (case ast_item_Value (rest ! j) of
                 Some v \<Rightarrow> v
               | None \<Rightarrow>
                   (case (if j = 0 then Some ?val else Some (item_Value (items' ! (j - 1)))) of
                      None \<Rightarrow> 0
                    | Some p \<Rightarrow> p + 1))"
      using j by blast
    then show ?thesis
      using Suc by (cases j) (auto simp: items split: option.splits)
  qed
  show ?case
    using names vals by blast
qed

lemma compileEnum_items_distinct:
  assumes "distinct (map ast_item_Name astItems)"
    and "set (map ast_item_Name astItems) \<inter> set used = {}"
  shows "\<exists>items. compileEnum_items enumName used prev astItems = Inr items"
  using assms
proof (induction astItems arbitrary: used prev)
  case Nil
  then show ?case by simp
next
  case (Cons a rest)
  let ?val = "case ast_item_Value a of
                  Some v \<Rightarrow> v
                | None \<Rightarrow> (case prev of None \<Rightarrow> 0 | Some p \<Rightarrow> p + 1)"
  have "\<exists>items. compileEnum_items enumName (ast_item_Name a # used) (Some ?val) rest = Inr items"
    using Cons.prems by (intro Cons.IH) auto
  then show ?case
    using Cons.prems by (auto simp: Let_def)
qed

lemma compileEnum_items_duplicate:
  assumes "\<not> (distinct (map ast_item_Name astItems)
              \<and> set (map ast_item_Name astItems) \<inter> set used = {})"
  shows "\<exists>name. name \<in> set (map ast_item_Name astItems)
           \<and> compileEnum_items enumName used prev astItems
               = Inl (CompileError (enumName @ ''.'' @ name) (NameConflict name))"
  using assms
proof (induction astItems arbitrary: used prev)
  case Nil
  then show ?case by simp
next
  case (Cons a rest)
  show ?case
  proof (cases "ast_item_Name a \<in> set used")
    case True
    then show ?thesis by auto
  next
    case False
    let ?val = "case ast_item_Value a of
                    Some v \<Rightarrow> v
                  | None \<Rightarrow> (case prev of None \<Rightarrow> 0 | Some p \<Rightarrow> p + 1)"
    have "\<not> (distinct (map ast_item_Name rest)
              \<and> set (map ast_item_Name rest) \<inter> set (ast_item_Name a # used) = {})"
      using Cons.prems False by auto
    from Cons.IH [OF this, of "Some ?val"] obtain name where
      "name \<in> set (map ast_item_Name rest)"
      "compileEnum_items enumName (ast_item_Name a # used) (Some ?val) rest
         = Inl (CompileError (enumName @ ''.'' @ name) (NameConflict name))"
      by blast
    then show ?thesis
      using False by (auto simp: Let_def)
  qed
qed

lemma Error_fragments:
  "sublist (''cannot compile \"'' @ target @ ''\"'') (Error (CompileError target reason))"
  "sublist (Error reason) (Error (CompileError target reason))"
proof -
  have "Error (CompileError target reason)
      = [] @ (''cannot compile \"'' @ target @ ''\"'') @ ('': '' @ Error reason)"
    by simp
  then show "sublist (''cannot compile \"'' @ target @ ''\"'') (Error (CompileError target reason))"
    unfolding sublist_def by blast
  have "Error (CompileError target reason)
      = (''cannot compile \"'' @ target @ ''\": '') @ Error reason @ []"
    by simp
  then show "sublist (Error reason) (Error (CompileError target reason))"
    unfolding sublist_def by blast
qed

section \<open>Properties\<close>

text \<open>
  In the statements below a source \<open>(b # c) # cs\<close> is one whose next \<open>Read\<close> can deliver
  the byte \<open>b\<close> and the bytes \<open>c\<close> after it; \<open>cs\<close> are the later chunks. \<open>remaining\<close> gives
  the bytes a state has not consumed, so \<open>remaining sr' = c @ concat cs\<close> says that exactly
  the bytes before \<open>c\<close> were consumed.
\<close>

text \<open>
  C1 (the behaviour of the code at a stop byte). \<open>ReadFieldBegin\<close> has no test for
  the type code 0: on the bytes \<open>00 00 01 55\<close> it reads the stop byte and the two bytes
  after it as a field id and returns the header \<open>{Type: 0, ID: 1}\<close> with \<open>more = true\<close>
  and no error, leaving only \<open>55\<close>; on the lone stop byte \<open>00\<close> (a struct without
  fields) it returns the unexpected-EOF error. In neither case does it return
  \<open>more = false\<close> with a \<open>nil\<close> error.
\<close>

theorem ReadFieldBegin_stop_byte:
  "fst (ReadFieldBegin (NewStreamReader [[0x00, 0x00, 0x01, 0x55]]))
     = (\<lparr>fh_ID = 1, fh_Type = 0\<rparr>, True, None)
   \<and> remaining (snd (ReadFieldBegin (NewStreamReader [[0x00, 0x00, 0x01, 0x55]]))) = [0x55]
   \<and> fst (ReadFieldBegin (NewStreamReader [[0x00]]))
     = (\<lparr>fh_ID = 0, fh_Type = 0\<rparr>, False, Some ErrUnexpectedEOF)"
  by (simp add: ReadFieldBegin_def rd_defs NewStreamReader_def Uint16_def)

text \<open>
  C2. When the source delivers a next byte \<open>b\<close>, \<open>ReadBool\<close> returns \<open>false\<close> with no
  error for \<open>b = 0x00\<close>, \<open>true\<close> with no error for \<open>b = 0x01\<close>, and the invalid-bool error
  (carrying \<open>b\<close>) for every other byte.
\<close>

theorem ReadBool_strict:
  assumes "reader sr = (b # c) # cs"
  shows "fst (ReadBool sr) =
           (if b = 0 then (False, None)
            else if b = 1 then (True, None)
            else (False, Some (InvalidBool b)))"
  using assms by (auto simp: ReadBool_def rd_defs)

theorem ReadBool_strict_witness:
  "fst (ReadBool (NewStreamReader [[0x00, 0x07]])) = (False, None)
   \<and> fst (ReadBool (NewStreamReader [[0x01, 0x07]])) = (True, None)
   \<and> fst (ReadBool (NewStreamReader [[0x02, 0x07]])) = (False, Some (InvalidBool 0x02))"
  using ReadBool_strict [of "NewStreamReader [[0x00, 0x07]]" "0x00" "[0x07]" "[]"]
        ReadBool_strict [of "NewStreamReader [[0x01, 0x07]]" "0x01" "[0x07]" "[]"]
        ReadBool_strict [of "NewStreamReader [[0x02, 0x07]]" "0x02" "[0x07]" "[]"]
  by (simp add: NewStreamReader_def)

text \<open>
  C3. A negative length in a header is rejected. Let the four bytes \<open>n3 n2 n1 n0\<close> decode
  to a negative \<open>int32\<close> \<open>n\<close>. Then on a source that starts with them, \<open>ReadBinary\<close> fails
  with the negative-length error for binary fields; on a source that starts with an
  element type and them, \<open>ReadListBegin\<close> and \<open>ReadSetBegin\<close> fail with the
  negative-length error; on a source that starts with a key type, a value type and them,
  \<open>ReadMapBegin\<close> fails with it; and \<open>Skip\<close> of \<open>BINARY\<close>, \<open>LIST\<close>, \<open>SET\<close> and \<open>MAP\<close>
  fails with it on the same sources. In each case the header is all that was consumed.
\<close>

theorem negative_length_rejected:
  assumes neg: "sint n < 0" and n: "n = Uint32 [n3, n2, n1, n0]"
    and bin: "reader srB = (n3 # n2 # n1 # n0 # c) # cs"
    and lst: "reader srL = (t # n3 # n2 # n1 # n0 # c) # cs"
    and mp: "reader srM = (k # v # n3 # n2 # n1 # n0 # c) # cs"
  shows "(fst (ReadBinary thr srB) = (None, Some (NegativeBinaryLength n))
          \<and> remaining (snd (ReadBinary thr srB)) = c @ concat cs)
       \<and> (fst (ReadListBegin srL) = (\<lparr>lh_Type = 0, lh_Length = 0\<rparr>, Some (NegativeLength n))
          \<and> remaining (snd (ReadListBegin srL)) = c @ concat cs)
       \<and> (fst (ReadSetBegin srL) = (\<lparr>sh_Type = 0, sh_Length = 0\<rparr>, Some (NegativeLength n))
          \<and> remaining (snd (ReadSetBegin srL)) = c @ concat cs)
       \<and> (fst (ReadMapBegin srM)
            = (\<lparr>mh_KeyType = 0, mh_ValueType = 0, mh_Length = 0\<rparr>, Some (NegativeLength n))
          \<and> remaining (snd (ReadMapBegin srM)) = c @ concat cs)
       \<and> (\<exists>sr'. Skip (Suc fuel) TBinary srB = Some (Some (NegativeLength n), sr')
             \<and> remaining sr' = c @ concat cs)
       \<and> (\<exists>sr'. Skip (Suc (Suc fuel)) TList srL = Some (Some (NegativeLength n), sr')
             \<and> remaining sr' = c @ concat cs)
       \<and> (\<exists>sr'. Skip (Suc (Suc fuel)) TSet srL = Some (Some (NegativeLength n), sr')
             \<and> remaining sr' = c @ concat cs)
       \<and> (\<exists>sr'. Skip (Suc (Suc fuel)) TMap srM = Some (Some (NegativeLength n), sr')
             \<and> remaining sr' = c @ concat cs)"
proof -
  have rb: "fst (ReadBinary thr srB) = (None, Some (NegativeBinaryLength n))
      \<and> remaining (snd (ReadBinary thr srB)) = c @ concat cs"
    using neg n bin by (auto simp: ReadBinary_def rd_defs)
  have hd: "fst (readTypeSizeHeader srL) = (0, 0, Some (NegativeLength n))
      \<and> remaining (snd (readTypeSizeHeader srL)) = c @ concat cs"
    using neg n lst by (auto simp: readTypeSizeHeader_def rd_defs)
  have rl: "fst (ReadListBegin srL) = (\<lparr>lh_Type = 0, lh_Length = 0\<rparr>, Some (NegativeLength n))
      \<and> remaining (snd (ReadListBegin srL)) = c @ concat cs"
    using hd by (simp add: ReadListBegin_def split_beta)
  have rs: "fst (ReadSetBegin srL) = (\<lparr>sh_Type = 0, sh_Length = 0\<rparr>, Some (NegativeLength n))
      \<and> remaining (snd (ReadSetBegin srL)) = c @ concat cs"
    using hd by (simp add: ReadSetBegin_def split_beta)
  have rm: "fst (ReadMapBegin srM)
        = (\<lparr>mh_KeyType = 0, mh_ValueType = 0, mh_Length = 0\<rparr>, Some (NegativeLength n))
      \<and> remaining (snd (ReadMapBegin srM)) = c @ concat cs"
    using neg n mp by (auto simp: ReadMapBegin_def rd_defs)
  have sb: "\<exists>sr'. Skip (Suc fuel) TBinary srB = Some (Some (NegativeLength n), sr')
      \<and> remaining sr' = c @ concat cs"
    using neg n bin by (auto simp: fixedWidth_def wire_Type_defs rd_defs)
  have sl: "\<exists>sr'. Skip (Suc (Suc fuel)) TList srL = Some (Some (NegativeLength n), sr')
      \<and> remaining sr' = c @ concat cs"
    using hd by (simp add: fixedWidth_def wire_Type_defs split_beta prod_eq_iff)
  have ss: "\<exists>sr'. Skip (Suc (Suc fuel)) TSet srL = Some (Some (NegativeLength n), sr')
      \<and> remaining sr' = c @ concat cs"
    using hd by (simp add: fixedWidth_def wire_Type_defs split_beta prod_eq_iff)
  have sm: "\<exists>sr'. Skip (Suc (Suc fuel)) TMap srM = Some (Some (NegativeLength n), sr')
      \<and> remaining sr' = c @ concat cs"
    using neg n mp by (auto simp: fixedWidth_def wire_Type_defs rd_defs)
  show ?thesis
    using rb rl rs rm sb sl ss sm by blast
qed

theorem negative_length_rejected_witness:
  "fst (ReadBinary 1024 (NewStreamReader [[0xFF, 0xFF, 0xFF, 0xFE, 0x61]]))
     = (None, Some (NegativeBinaryLength (- 2)))
   \<and> remaining (snd (ReadBinary 1024 (NewStreamReader [[0xFF, 0xFF, 0xFF, 0xFE, 0x61]]))) = [0x61]
   \<and> fst (ReadListBegin (NewStreamReader [[0x08, 0xFF, 0xFF, 0xFF, 0xFE, 0x61]]))
     = (\<lparr>lh_Type = 0, lh_Length = 0\<rparr>, Some (NegativeLength (- 2)))
   \<and> fst (ReadMapBegin (NewStreamReader [[0x08, 0x0B, 0xFF, 0xFF, 0xFF, 0xFE, 0x61]]))
     = (\<lparr>mh_KeyType = 0, mh_ValueType = 0, mh_Length = 0\<rparr>, Some (NegativeLength (- 2)))
   \<and> (\<exists>sr'. Skip 2 TMap (NewStreamReader [[0x08, 0x0B, 0xFF, 0xFF, 0xFF, 0xFE, 0x61]])
               = Some (Some (NegativeLength (- 2)), sr') \<and> remaining sr' = [0x61])"
proof -
  have n: "(- 2 :: int32) = Uint32 [0xFF, 0xFF, 0xFF, 0xFE]"
    by (simp add: Uint32_def)
  have neg: "sint (- 2 :: int32) < 0"
    by simp
  show ?thesis
    using negative_length_rejected [OF neg n,
        of "NewStreamReader [[0xFF, 0xFF, 0xFF, 0xFE, 0x61]]" "[0x61]" "[]"
           "NewStreamReader [[0x08, 0xFF, 0xFF, 0xFF, 0xFE, 0x61]]" "0x08"
           "NewStreamReader [[0x08, 0x0B, 0xFF, 0xFF, 0xFF, 0xFE, 0x61]]" "0x08" "0x0B" 1024 0]
    by (simp add: NewStreamReader_def numeral_2_eq_2)
qed

text \<open>
  C4. \<open>ReadStructBegin\<close> returns no error and leaves every state as it is. When the source
  delivers a next byte \<open>b\<close>, \<open>ReadStructEnd\<close> consumes exactly that byte; it returns no
  error if and only if \<open>b = 0\<close>, and the invalid-stop-field error for a nonzero \<open>b\<close>.
\<close>

theorem ReadStructEnd_stop:
  assumes "reader sr = (b # c) # cs"
  shows "(\<forall>s. ReadStructBegin s = (None, s))
       \<and> (fst (ReadStructEnd sr) = None \<longleftrightarrow> b = 0)
       \<and> (b \<noteq> 0 \<longrightarrow> fst (ReadStructEnd sr) = Some (InvalidStopField b))
       \<and> remaining sr = b # remaining (snd (ReadStructEnd sr))"
  using assms by (auto simp: ReadStructBegin_def ReadStructEnd_def rd_defs)

theorem ReadStructEnd_stop_witness:
  "fst (ReadStructEnd (NewStreamReader [[0x00, 0x2A]])) = None
   \<and> remaining (snd (ReadStructEnd (NewStreamReader [[0x00, 0x2A]]))) = [0x2A]
   \<and> fst (ReadStructEnd (NewStreamReader [[0x0C, 0x2A]])) = Some (InvalidStopField 0x0C)
   \<and> remaining (snd (ReadStructEnd (NewStreamReader [[0x0C, 0x2A]]))) = [0x2A]"
  using ReadStructEnd_stop [of "NewStreamReader [[0x00, 0x2A]]" "0x00" "[0x2A]" "[]"]
        ReadStructEnd_stop [of "NewStreamReader [[0x0C, 0x2A]]" "0x0C" "[0x2A]" "[]"]
  by (simp add: NewStreamReader_def remaining_def)

text \<open>
  C5. Let a source start with a map header: a key type \<open>k\<close>, a value type \<open>v\<close> and four
  bytes that decode to a length \<open>n \<ge> 0\<close>, where \<open>k\<close> and \<open>v\<close> are fixed-width types. Then
  \<open>Skip\<close> of \<open>MAP\<close> (with room for two nested calls or more) returns, having consumed the
  6 header bytes and \<open>n * (fixedWidth k + fixedWidth v)\<close> further bytes (or all there
  were, if the source is shorter); it returns no error exactly when the source had that
  many bytes, and the unexpected-EOF error otherwise. For a \<open>MAP<I32,I32>\<close> of length 3
  the state is \<open>1+1+4 + 3*(4+4) = 30\<close> bytes further.
\<close>

theorem skipMap_fixed_width:
  assumes src: "reader sr = (k # v # n3 # n2 # n1 # n0 # c) # cs"
    and n: "n = Uint32 [n3, n2, n1, n0]" and nonneg: "0 \<le> sint n"
    and kw: "0 < fixedWidth k" and vw: "0 < fixedWidth v"
  shows "\<exists>err sr'. Skip (Suc (Suc fuel)) TMap sr = Some (err, sr')
       \<and> remaining sr' = drop (6 + nat (sint n * (fixedWidth k + fixedWidth v))) (remaining sr)
       \<and> (err = None \<longleftrightarrow> 6 + sint n * (fixedWidth k + fixedWidth v) \<le> int (length (remaining sr)))
       \<and> (err \<noteq> None \<longrightarrow> err = Some ErrUnexpectedEOF)
       \<and> (k = TI32 \<and> v = TI32 \<and> sint n = 3 \<longrightarrow> remaining sr' = drop 30 (remaining sr))"
proof -
  let ?len = "sint n * (fixedWidth k + fixedWidth v)"
  have fw: "\<not> 0 < fixedWidth TMap" "TMap \<noteq> TBinary" "TMap \<noteq> TStruct"
    by (simp_all add: fixedWidth_def wire_Type_defs)
  obtain sr1 where r1: "ReadInt8 sr = ((k, None), sr1)"
    and s1: "reader sr1 = (v # n3 # n2 # n1 # n0 # c) # cs"
    using ReadInt8_chunk [OF src] by auto
  obtain sr2 where r2: "ReadInt8 sr1 = ((v, None), sr2)"
    and s2: "reader sr2 = (n3 # n2 # n1 # n0 # c) # cs"
    using ReadInt8_chunk [OF s1] by auto
  obtain sr3 where r3: "ReadInt32 sr2 = ((n, None), sr3)"
    and s3: "reader sr3 = (if c = [] then cs else c # cs)"
    using ReadInt32_chunk [OF s2] n by auto
  have sk: "Skip (Suc (Suc fuel)) TMap sr = Some (discard ?len sr3)"
    using nonneg kw vw by (simp add: fw r1 r2 r3)
  have c3: "concat (reader sr3) = c @ concat cs"
    by (simp add: s3)
  have rem: "remaining sr = k # v # n3 # n2 # n1 # n0 # c @ concat cs"
    by (simp add: remaining_def src)
  have len0: "0 \<le> ?len"
    using nonneg kw vw by simp
  obtain err sr' where d: "discard ?len sr3 = (err, sr')"
    by (cases "discard ?len sr3")
  have e: "err = (if ?len \<le> int (length (c @ concat cs)) then None else Some ErrUnexpectedEOF)"
    using discard_err [of ?len sr3] by (simp add: d c3)
  have r: "remaining sr' = drop (nat ?len) (c @ concat cs)"
    using discard_rest [of ?len sr3] by (simp add: d c3 remaining_def)
  have six: "drop 6 (remaining sr) = c @ concat cs"
    by (simp add: rem)
  have r': "remaining sr' = drop (6 + nat ?len) (remaining sr)"
    unfolding r six [symmetric] drop_drop by (simp add: add.commute)
  have e1: "err = None \<longleftrightarrow> 6 + ?len \<le> int (length (remaining sr))"
    by (simp add: e rem)
  have e2: "err \<noteq> None \<longrightarrow> err = Some ErrUnexpectedEOF"
    by (simp add: e)
  have w: "k = TI32 \<and> v = TI32 \<and> sint n = 3 \<longrightarrow> remaining sr' = drop 30 (remaining sr)"
    by (simp add: r' fixedWidth_def wire_Type_defs)
  show ?thesis
    unfolding sk d using r' e1 e2 w by blast
qed

theorem skipMap_fixed_width_witness:
  "\<exists>sr'. Skip 2 TMap (NewStreamReader
       [[0x08, 0x08, 0x00, 0x00, 0x00, 0x03,
         0, 0, 0, 1, 0, 0, 0, 10,  0, 0, 0, 2, 0, 0, 0, 20,  0, 0, 0, 3, 0, 0, 0, 30,
         0x7F]]) = Some (None, sr')
     \<and> remaining sr' = [0x7F]"
proof -
  let ?payload = "[0, 0, 0, 1, 0, 0, 0, 10,  0, 0, 0, 2, 0, 0, 0, 20,  0, 0, 0, 3, 0, 0, 0, 30,
                   0x7F] :: byte list"
  let ?sr = "NewStreamReader [0x08 # 0x08 # 0x00 # 0x00 # 0x00 # 0x03 # ?payload]"
  have src: "reader ?sr = (0x08 # 0x08 # 0x00 # 0x00 # 0x00 # 0x03 # ?payload) # []"
    by (simp add: NewStreamReader_def)
  have n: "(3 :: int32) = Uint32 [0x00, 0x00, 0x00, 0x03]"
    by (simp add: Uint32_def)
  have nonneg: "0 \<le> sint (3 :: int32)"
    by simp
  have w: "fixedWidth 0x08 = 4"
    by (simp add: fixedWidth_def wire_Type_defs)
  have kw: "0 < fixedWidth 0x08"
    by (simp add: w)
  have rem: "remaining ?sr = 0x08 # 0x08 # 0x00 # 0x00 # 0x00 # 0x03 # ?payload"
    by (simp add: remaining_def NewStreamReader_def)
  show ?thesis
    using skipMap_fixed_width [OF src n nonneg kw kw, of 0]
    by (auto simp del: Skip.simps simp add: w rem numeral_2_eq_2)
qed

text \<open>
  C6, as stated, is false of \<open>discard\<close>: a source that delivers fewer bytes than requested
  while more are to come does not make it fail. On the source that delivers \<open>01\<close>, then
  \<open>02 03\<close>, then \<open>04\<close>, a \<open>Read\<close> of three bytes returns one byte and \<open>nil\<close>; \<open>discard 3\<close>
  returns \<open>nil\<close>, not the unexpected-EOF error, and leaves \<open>04\<close>, since \<open>io.CopyN\<close> reads
  on until three bytes are copied.
\<close>

theorem discard_short_delivery:
  "fst (Read 3 (reader (NewStreamReader [[0x01], [0x02, 0x03], [0x04]]))) = ([0x01], None)
   \<and> fst (discard 3 (NewStreamReader [[0x01], [0x02, 0x03], [0x04]])) = None
   \<and> fst (discard 3 (NewStreamReader [[0x01], [0x02, 0x03], [0x04]])) \<noteq> Some ErrUnexpectedEOF
   \<and> remaining (snd (discard 3 (NewStreamReader [[0x01], [0x02, 0x03], [0x04]]))) = [0x04]"
  by (simp add: discard_def CopyN_def NewStreamReader_def remaining_def)

text \<open>
  C6, amended. \<^bold>\<open>The source ends before the bytes are complete\<close>: every operation reports
  the unexpected-EOF error. That is \<open>read\<close> into a slice longer than what is left;
  \<open>discard\<close> of more bytes than are left; each scalar read on a source with fewer bytes
  than the scalar has; \<open>ReadBinary\<close> and \<open>ReadString\<close> when the length prefix is cut or the
  payload is longer than what is left, below and above the allocation threshold;
  \<open>ReadStructEnd\<close>, \<open>ReadFieldBegin\<close> (with \<open>more = false\<close>), \<open>ReadListBegin\<close>,
  \<open>ReadSetBegin\<close> and \<open>ReadMapBegin\<close> on a source with fewer than their 1, 3, 5, 5 and 6
  bytes; \<open>Skip\<close> on a source shorter than the fixed width or the header of the value; and
  \<open>Skip\<close> on every source that ends inside a value: if \<open>Skip\<close> skips a value in full on
  some source, then on that source cut after \<open>r\<close> bytes, \<open>r\<close> less than the bytes of the
  value, it reports the unexpected-EOF error.

  \<^bold>\<open>The source delivers fewer bytes than requested, with more to come\<close>: \<open>read\<close> reports
  the unexpected-EOF error, and so do the scalar reads and, up to the allocation
  threshold, \<open>ReadBinary\<close> and \<open>ReadString\<close>, when the first chunk is shorter than what
  they ask for. \<open>discard\<close> does not: it fails exactly when the source ends before \<open>n\<close>
  bytes. Nor do \<open>ReadBinary\<close> and \<open>ReadString\<close> above the threshold: they return the
  payload whenever the source holds it.

  \<^bold>\<open>Errors are passed on\<close>: the error of a scalar read inside \<open>ReadStructEnd\<close>,
  \<open>ReadFieldBegin\<close>, \<open>ReadListBegin\<close>, \<open>ReadSetBegin\<close>, \<open>ReadMapBegin\<close>, \<open>ReadBinary\<close> or
  \<open>ReadString\<close> is the error of the operation, whichever of its reads fails.

  \<^bold>\<open>No plain EOF\<close>: no operation of the reader ever returns \<open>io.EOF\<close>, whatever the
  source holds, also when it is exhausted at the start of the call.
\<close>

theorem all_EOFs_unexpected:
  "(length (remaining sr) < length bs \<longrightarrow>
      snd (snd (fst (read bs sr))) = Some ErrUnexpectedEOF)
 \<and> (reader sr = c # cs \<and> length c < length bs \<longrightarrow>
      snd (snd (fst (read bs sr))) = Some ErrUnexpectedEOF)
 \<and> (int (length (remaining sr)) < n \<longrightarrow> fst (discard n sr) = Some ErrUnexpectedEOF)
 \<and> (fst (discard n sr) = None \<longleftrightarrow> n \<le> int (length (remaining sr)))
 \<and> (length (remaining sr) < 1 \<longrightarrow>
      snd (fst (ReadBool sr)) = Some ErrUnexpectedEOF
      \<and> snd (fst (ReadInt8 sr)) = Some ErrUnexpectedEOF)
 \<and> (length (remaining sr) < 2 \<longrightarrow> snd (fst (ReadInt16 sr)) = Some ErrUnexpectedEOF)
 \<and> (length (remaining sr) < 4 \<longrightarrow> snd (fst (ReadInt32 sr)) = Some ErrUnexpectedEOF)
 \<and> (length (remaining sr) < 8 \<longrightarrow>
      snd (fst (ReadInt64 sr)) = Some ErrUnexpectedEOF
      \<and> snd (fst (ReadDouble sr)) = Some ErrUnexpectedEOF)
 \<and> (ReadInt32 sr = ((len, None), sr1) \<and> 0 < sint len
      \<and> int (length (remaining sr1)) < sint len \<longrightarrow>
      snd (fst (ReadBinary thr sr)) = Some ErrUnexpectedEOF
      \<and> snd (fst (ReadString thr sr)) = Some ErrUnexpectedEOF)
 \<and> (length (remaining sr) < 4 \<longrightarrow>
      snd (fst (ReadBinary thr sr)) = Some ErrUnexpectedEOF
      \<and> snd (fst (ReadString thr sr)) = Some ErrUnexpectedEOF)
 \<and> (length (remaining sr) < 1 \<longrightarrow> fst (ReadStructEnd sr) = Some ErrUnexpectedEOF)
 \<and> (length (remaining sr) < 3 \<longrightarrow>
      snd (fst (ReadFieldBegin sr)) = (False, Some ErrUnexpectedEOF))
 \<and> (length (remaining sr) < 5 \<longrightarrow>
      snd (fst (ReadListBegin sr)) = Some ErrUnexpectedEOF
      \<and> snd (fst (ReadSetBegin sr)) = Some ErrUnexpectedEOF)
 \<and> (length (remaining sr) < 6 \<longrightarrow> snd (fst (ReadMapBegin sr)) = Some ErrUnexpectedEOF)
 \<and> ((0 < fixedWidth t \<and> int (length (remaining sr)) < fixedWidth t)
      \<or> (t = TBinary \<and> length (remaining sr) < 4)
      \<or> (t = TStruct \<and> length (remaining sr) < 1)
      \<or> (t = TMap \<and> length (remaining sr) < 6)
      \<or> ((t = TSet \<or> t = TList) \<and> length (remaining sr) < 5) \<longrightarrow>
      (\<exists>sr''. Skip (Suc (Suc fuel)) t sr = Some (Some ErrUnexpectedEOF, sr'')))
 \<and> (Skip fuel t sr = Some (None, sr')
      \<and> r < length (remaining sr) - length (remaining sr') \<longrightarrow>
      (\<exists>sr''. Skip fuel t (truncate_source r sr) = Some (Some ErrUnexpectedEOF, sr'')))
 \<and> (reader sr = c # cs \<and> length c < 1 \<longrightarrow>
      snd (fst (ReadBool sr)) = Some ErrUnexpectedEOF
      \<and> snd (fst (ReadInt8 sr)) = Some ErrUnexpectedEOF)
 \<and> (reader sr = c # cs \<and> length c < 2 \<longrightarrow> snd (fst (ReadInt16 sr)) = Some ErrUnexpectedEOF)
 \<and> (reader sr = c # cs \<and> length c < 4 \<longrightarrow> snd (fst (ReadInt32 sr)) = Some ErrUnexpectedEOF)
 \<and> (reader sr = c # cs \<and> length c < 8 \<longrightarrow>
      snd (fst (ReadInt64 sr)) = Some ErrUnexpectedEOF
      \<and> snd (fst (ReadDouble sr)) = Some ErrUnexpectedEOF)
 \<and> (ReadInt32 sr = ((len, None), sr1) \<and> 0 < sint len \<and> sint len \<le> thr
      \<and> reader sr1 = c # cs \<and> int (length c) < sint len \<longrightarrow>
      snd (fst (ReadBinary thr sr)) = Some ErrUnexpectedEOF
      \<and> snd (fst (ReadString thr sr)) = Some ErrUnexpectedEOF)
 \<and> (ReadInt32 sr = ((len, None), sr1) \<and> 0 < sint len \<and> thr < sint len
      \<and> sint len \<le> int (length (remaining sr1)) \<longrightarrow>
      fst (ReadBinary thr sr) = (Some (take (nat (sint len)) (remaining sr1)), None)
      \<and> fst (ReadString thr sr) = (take (nat (sint len)) (remaining sr1), None))
 \<and> (snd (fst (ReadInt8 sr)) = Some err \<longrightarrow>
      fst (ReadStructEnd sr) = Some err
      \<and> snd (fst (ReadFieldBegin sr)) = (False, Some err)
      \<and> snd (fst (ReadListBegin sr)) = Some err
      \<and> snd (fst (ReadSetBegin sr)) = Some err
      \<and> snd (fst (ReadMapBegin sr)) = Some err)
 \<and> (ReadInt8 sr = ((v, None), sr1) \<and> snd (fst (ReadInt16 sr1)) = Some err \<longrightarrow>
      snd (fst (ReadFieldBegin sr)) = (False, Some err))
 \<and> (ReadInt8 sr = ((v, None), sr1) \<and> snd (fst (ReadInt32 sr1)) = Some err \<longrightarrow>
      snd (fst (ReadListBegin sr)) = Some err
      \<and> snd (fst (ReadSetBegin sr)) = Some err)
 \<and> (ReadInt8 sr = ((v, None), sr1) \<and> snd (fst (ReadInt8 sr1)) = Some err \<longrightarrow>
      snd (fst (ReadMapBegin sr)) = Some err)
 \<and> (ReadInt8 sr = ((v, None), sr1) \<and> ReadInt8 sr1 = ((v', None), sr2)
      \<and> snd (fst (ReadInt32 sr2)) = Some err \<longrightarrow>
      snd (fst (ReadMapBegin sr)) = Some err)
 \<and> (snd (fst (ReadInt32 sr)) = Some err \<longrightarrow>
      snd (fst (ReadBinary thr sr)) = Some err
      \<and> snd (fst (ReadString thr sr)) = Some err)
 \<and> snd (snd (fst (read bs sr))) \<noteq> Some EOF
 \<and> fst (discard n sr) \<noteq> Some EOF
 \<and> snd (fst (ReadBool sr)) \<noteq> Some EOF
 \<and> snd (fst (ReadInt8 sr)) \<noteq> Some EOF
 \<and> snd (fst (ReadInt16 sr)) \<noteq> Some EOF
 \<and> snd (fst (ReadInt32 sr)) \<noteq> Some EOF
 \<and> snd (fst (ReadInt64 sr)) \<noteq> Some EOF
 \<and> snd (fst (ReadDouble sr)) \<noteq> Some EOF
 \<and> snd (fst (ReadBinary thr sr)) \<noteq> Some EOF
 \<and> snd (fst (ReadString thr sr)) \<noteq> Some EOF
 \<and> fst (ReadStructEnd sr) \<noteq> Some EOF
 \<and> snd (snd (fst (ReadFieldBegin sr))) \<noteq> Some EOF
 \<and> snd (fst (ReadListBegin sr)) \<noteq> Some EOF
 \<and> snd (fst (ReadSetBegin sr)) \<noteq> Some EOF
 \<and> snd (fst (ReadMapBegin sr)) \<noteq> Some EOF
 \<and> (\<forall>e sr'. Skip fuel t sr = Some (e, sr') \<longrightarrow> e \<noteq> Some EOF)"
proof -
  have a: "length (remaining sr) < length bs \<longrightarrow>
      snd (snd (fst (read bs sr))) = Some ErrUnexpectedEOF"
    by (cases "reader sr") (auto simp: read_err remaining_def)
  have b: "reader sr = c # cs \<and> length c < length bs \<longrightarrow>
      snd (snd (fst (read bs sr))) = Some ErrUnexpectedEOF"
    by (auto simp: read_err)
  have c: "int (length (remaining sr)) < n \<longrightarrow> fst (discard n sr) = Some ErrUnexpectedEOF"
    by (simp add: discard_err remaining_def)
  have c': "fst (discard n sr) = None \<longleftrightarrow> n \<le> int (length (remaining sr))"
    by (simp add: discard_err remaining_def)
  have d: "length (remaining sr) < k \<longrightarrow> snd (fst (read_buffer k sr)) = Some ErrUnexpectedEOF" for k
    using read_buffer_short [of sr k] by simp
  have d1: "length (remaining sr) < 1 \<longrightarrow>
      snd (fst (ReadBool sr)) = Some ErrUnexpectedEOF
      \<and> snd (fst (ReadInt8 sr)) = Some ErrUnexpectedEOF"
    using d [of 1] by (simp add: ReadBool_def ReadInt8_def split_beta)
  have d2: "length (remaining sr) < 2 \<longrightarrow> snd (fst (ReadInt16 sr)) = Some ErrUnexpectedEOF"
    using d [of 2] by (simp add: ReadInt16_def split_beta)
  have d4: "length (remaining sr) < 4 \<longrightarrow> snd (fst (ReadInt32 sr)) = Some ErrUnexpectedEOF"
    using d [of 4] by (simp add: ReadInt32_def split_beta)
  have d8: "length (remaining sr) < 8 \<longrightarrow>
      snd (fst (ReadInt64 sr)) = Some ErrUnexpectedEOF
      \<and> snd (fst (ReadDouble sr)) = Some ErrUnexpectedEOF"
    using d [of 8] by (simp add: ReadInt64_def ReadDouble_def split_beta)
  have e: "ReadInt32 sr = ((len, None), sr1) \<and> 0 < sint len
      \<and> int (length (remaining sr1)) < sint len \<longrightarrow>
      snd (fst (ReadBinary thr sr)) = Some ErrUnexpectedEOF
      \<and> snd (fst (ReadString thr sr)) = Some ErrUnexpectedEOF"
    using ReadBinary_short [of sr len sr1 thr] by (simp add: ReadString_def split_beta)
  have p: "length (remaining sr) < 4 \<longrightarrow>
      snd (fst (ReadBinary thr sr)) = Some ErrUnexpectedEOF
      \<and> snd (fst (ReadString thr sr)) = Some ErrUnexpectedEOF"
    using ReadBinary_prefix_short [of sr thr] by (simp add: ReadString_def split_beta)
  have h1: "length (remaining sr) < 1 \<longrightarrow> fst (ReadStructEnd sr) = Some ErrUnexpectedEOF"
    using ReadStructEnd_short [of sr] by blast
  have h3: "length (remaining sr) < 3 \<longrightarrow>
      snd (fst (ReadFieldBegin sr)) = (False, Some ErrUnexpectedEOF)"
    using ReadFieldBegin_short [of sr] by blast
  have h5: "length (remaining sr) < 5 \<longrightarrow>
      snd (fst (ReadListBegin sr)) = Some ErrUnexpectedEOF
      \<and> snd (fst (ReadSetBegin sr)) = Some ErrUnexpectedEOF"
    using ReadListBegin_short [of sr] ReadSetBegin_short [of sr] by blast
  have h6: "length (remaining sr) < 6 \<longrightarrow> snd (fst (ReadMapBegin sr)) = Some ErrUnexpectedEOF"
    using ReadMapBegin_short [of sr] by blast
  have k1: "(0 < fixedWidth t \<and> int (length (remaining sr)) < fixedWidth t)
      \<or> (t = TBinary \<and> length (remaining sr) < 4)
      \<or> (t = TStruct \<and> length (remaining sr) < 1)
      \<or> (t = TMap \<and> length (remaining sr) < 6)
      \<or> ((t = TSet \<or> t = TList) \<and> length (remaining sr) < 5) \<longrightarrow>
      (\<exists>sr''. Skip (Suc (Suc fuel)) t sr = Some (Some ErrUnexpectedEOF, sr''))"
    using Skip_short [of t sr fuel] by blast
  have k2: "Skip fuel t sr = Some (None, sr')
      \<and> r < length (remaining sr) - length (remaining sr') \<longrightarrow>
      (\<exists>sr''. Skip fuel t (truncate_source r sr) = Some (Some ErrUnexpectedEOF, sr''))"
    using Skip_truncated [of fuel t sr sr' r] by (simp add: consumed_def)
  have s1: "reader sr = c # cs \<and> length c < 1 \<longrightarrow>
      snd (fst (ReadBool sr)) = Some ErrUnexpectedEOF
      \<and> snd (fst (ReadInt8 sr)) = Some ErrUnexpectedEOF"
    using scalar_short_delivery(1,2) [of sr c cs] by blast
  have s2: "reader sr = c # cs \<and> length c < 2 \<longrightarrow>
      snd (fst (ReadInt16 sr)) = Some ErrUnexpectedEOF"
    using scalar_short_delivery(3) [of sr c cs] by blast
  have s4: "reader sr = c # cs \<and> length c < 4 \<longrightarrow>
      snd (fst (ReadInt32 sr)) = Some ErrUnexpectedEOF"
    using scalar_short_delivery(4) [of sr c cs] by blast
  have s8: "reader sr = c # cs \<and> length c < 8 \<longrightarrow>
      snd (fst (ReadInt64 sr)) = Some ErrUnexpectedEOF
      \<and> snd (fst (ReadDouble sr)) = Some ErrUnexpectedEOF"
    using scalar_short_delivery(5,6) [of sr c cs] by blast
  have q: "ReadInt32 sr = ((len, None), sr1) \<and> 0 < sint len \<and> sint len \<le> thr
      \<and> reader sr1 = c # cs \<and> int (length c) < sint len \<longrightarrow>
      snd (fst (ReadBinary thr sr)) = Some ErrUnexpectedEOF
      \<and> snd (fst (ReadString thr sr)) = Some ErrUnexpectedEOF"
    using ReadBinary_short_delivery [of sr len sr1 thr c cs]
    by (simp add: ReadString_def split_beta)
  have u: "ReadInt32 sr = ((len, None), sr1) \<and> 0 < sint len \<and> thr < sint len
      \<and> sint len \<le> int (length (remaining sr1)) \<longrightarrow>
      fst (ReadBinary thr sr) = (Some (take (nat (sint len)) (remaining sr1)), None)
      \<and> fst (ReadString thr sr) = (take (nat (sint len)) (remaining sr1), None)"
    using ReadBinary_streamed [of sr len sr1 thr] by (simp add: ReadString_def split_beta)
  have p1: "snd (fst (ReadInt8 sr)) = Some err \<longrightarrow>
      fst (ReadStructEnd sr) = Some err
      \<and> snd (fst (ReadFieldBegin sr)) = (False, Some err)
      \<and> snd (fst (ReadListBegin sr)) = Some err
      \<and> snd (fst (ReadSetBegin sr)) = Some err
      \<and> snd (fst (ReadMapBegin sr)) = Some err"
    using header_error_first [of sr err] by blast
  have p2: "ReadInt8 sr = ((v, None), sr1) \<and> snd (fst (ReadInt16 sr1)) = Some err \<longrightarrow>
      snd (fst (ReadFieldBegin sr)) = (False, Some err)"
    using header_error_second(1) [of sr v sr1 err] by blast
  have p3: "ReadInt8 sr = ((v, None), sr1) \<and> snd (fst (ReadInt32 sr1)) = Some err \<longrightarrow>
      snd (fst (ReadListBegin sr)) = Some err
      \<and> snd (fst (ReadSetBegin sr)) = Some err"
    using header_error_second(2,3) [of sr v sr1 err] by blast
  have p4: "ReadInt8 sr = ((v, None), sr1) \<and> snd (fst (ReadInt8 sr1)) = Some err \<longrightarrow>
      snd (fst (ReadMapBegin sr)) = Some err"
    using header_error_second(4) [of sr v sr1 err] by blast
  have p5: "ReadInt8 sr = ((v, None), sr1) \<and> ReadInt8 sr1 = ((v', None), sr2)
      \<and> snd (fst (ReadInt32 sr2)) = Some err \<longrightarrow>
      snd (fst (ReadMapBegin sr)) = Some err"
    using header_error_third [of sr v sr1 v' sr2 err] by blast
  have p6: "snd (fst (ReadInt32 sr)) = Some err \<longrightarrow>
      snd (fst (ReadBinary thr sr)) = Some err
      \<and> snd (fst (ReadString thr sr)) = Some err"
    using ReadBinary_error_prefix [of sr err thr] by blast
  have f: "snd (snd (fst (read bs sr))) \<noteq> Some EOF"
    by (cases "reader sr") (auto simp: read_err)
  have g: "\<forall>e sr'. Skip fuel t sr = Some (e, sr') \<longrightarrow> e \<noteq> Some EOF"
    using Skip_no_EOF by blast
  show ?thesis
    using a b c c' d1 d2 d4 d8 e p h1 h3 h5 h6 k1 k2 s1 s2 s4 s8 q u p1 p2 p3 p4 p5 p6 f g
      discard_no_EOF [of n sr] ReadBool_no_EOF [of sr]
      ReadInt_no_EOF [of sr] ReadDouble_no_EOF [of sr] ReadBinary_no_EOF [of thr sr]
      ReadString_no_EOF [of thr sr] ReadStructEnd_no_EOF [of sr] ReadFieldBegin_no_EOF [of sr]
      ReadListBegin_no_EOF [of sr] ReadSetBegin_no_EOF [of sr] ReadMapBegin_no_EOF [of sr]
    by (intro conjI) assumption+
qed

theorem all_EOFs_unexpected_witness:
  "snd (snd (fst (read [0, 0] (NewStreamReader [])))) = Some ErrUnexpectedEOF
   \<and> fst (discard 3 (NewStreamReader [])) = Some ErrUnexpectedEOF
   \<and> snd (fst (ReadBool (NewStreamReader []))) = Some ErrUnexpectedEOF
   \<and> snd (fst (ReadInt8 (NewStreamReader []))) = Some ErrUnexpectedEOF
   \<and> snd (fst (ReadInt16 (NewStreamReader []))) = Some ErrUnexpectedEOF
   \<and> snd (fst (ReadInt32 (NewStreamReader []))) = Some ErrUnexpectedEOF
   \<and> snd (fst (ReadInt64 (NewStreamReader []))) = Some ErrUnexpectedEOF
   \<and> snd (snd (fst (read [0, 0] (NewStreamReader [[0x01], [0x02, 0x03]])))) = Some ErrUnexpectedEOF
   \<and> snd (fst (ReadBinary 1024 (NewStreamReader [[0x00, 0x00, 0x00, 0x05, 0x61, 0x62]])))
       = Some ErrUnexpectedEOF
   \<and> snd (fst (ReadBinary 2 (NewStreamReader [[0x00, 0x00, 0x00, 0x05, 0x61, 0x62]])))
       = Some ErrUnexpectedEOF
   \<and> snd (fst (ReadDouble (NewStreamReader []))) = Some ErrUnexpectedEOF
   \<and> snd (fst (ReadBinary 1024 (NewStreamReader []))) = Some ErrUnexpectedEOF
   \<and> snd (fst (ReadString 1024 (NewStreamReader []))) = Some ErrUnexpectedEOF
   \<and> fst (ReadStructEnd (NewStreamReader [])) = Some ErrUnexpectedEOF
   \<and> snd (fst (ReadFieldBegin (NewStreamReader []))) = (False, Some ErrUnexpectedEOF)
   \<and> snd (fst (ReadListBegin (NewStreamReader []))) = Some ErrUnexpectedEOF
   \<and> snd (fst (ReadSetBegin (NewStreamReader []))) = Some ErrUnexpectedEOF
   \<and> snd (fst (ReadMapBegin (NewStreamReader []))) = Some ErrUnexpectedEOF
   \<and> (\<exists>sr''. Skip 2 TStruct (NewStreamReader []) = Some (Some ErrUnexpectedEOF, sr''))
   \<and> snd (fst (ReadInt16 (NewStreamReader [[0x01], [0x02, 0x03]]))) = Some ErrUnexpectedEOF
   \<and> fst (discard 2 (NewStreamReader [[0x01], [0x02, 0x03]])) = None
   \<and> snd (fst (ReadBinary 1024 (NewStreamReader [[0x00, 0x00, 0x00, 0x02], [0x61], [0x62]])))
       = Some ErrUnexpectedEOF
   \<and> fst (ReadBinary 1 (NewStreamReader [[0x00, 0x00, 0x00, 0x02], [0x61], [0x62]]))
       = (Some [0x61, 0x62], None)
   \<and> (\<exists>sr''. Skip 4 TList (NewStreamReader [[0x0B, 0, 0, 0, 1], [0, 0, 0, 2]])
         = Some (Some ErrUnexpectedEOF, sr''))
   \<and> snd (fst (ReadFieldBegin (NewStreamReader [[0x08], [0x00], [0x01]])))
       = (False, Some ErrUnexpectedEOF)
   \<and> snd (fst (ReadMapBegin (NewStreamReader [[0x08, 0x0B], [0x00, 0x00], [0x00, 0x01]])))
       = Some ErrUnexpectedEOF"
proof -
  let ?e = "NewStreamReader []"
  let ?s = "NewStreamReader [[0x01], [0x02, 0x03]]"
  let ?b = "NewStreamReader [[0x00, 0x00, 0x00, 0x05, 0x61, 0x62]]"
  let ?d = "NewStreamReader [[0x00, 0x00, 0x00, 0x02], [0x61], [0x62]]"
  let ?l = "NewStreamReader [[0x0B, 0, 0, 0, 1], [0, 0, 0, 2, 0x61, 0x62]]"
  let ?f = "NewStreamReader [[0x08], [0x00], [0x01]]"
  let ?m = "NewStreamReader [[0x08, 0x0B], [0x00, 0x00], [0x00, 0x01]]"
  have e: "remaining ?e = []"
    by (simp add: remaining_def NewStreamReader_def)
  have s: "reader ?s = [0x01] # [[0x02, 0x03]]" "remaining ?s = [0x01, 0x02, 0x03]"
    by (simp_all add: NewStreamReader_def remaining_def)
  define sr1 where "sr1 = snd (ReadInt32 ?b)"
  have b: "ReadInt32 ?b = ((5, None), sr1)"
    by (simp add: sr1_def rd_defs NewStreamReader_def Uint32_def)
  have b1: "remaining sr1 = [0x61, 0x62]"
    by (simp add: sr1_def rd_defs NewStreamReader_def)
  define sr2 where "sr2 = snd (ReadInt32 ?d)"
  have d: "ReadInt32 ?d = ((2, None), sr2)"
    by (simp add: sr2_def rd_defs NewStreamReader_def Uint32_def)
  have d1: "reader sr2 = [0x61] # [[0x62]]" "remaining sr2 = [0x61, 0x62]"
    by (simp_all add: sr2_def rd_defs NewStreamReader_def)
  have l: "\<exists>sr'. Skip 4 TList ?l = Some (None, sr') \<and> remaining sr' = []"
  proof -
    have src: "reader ?l = (0x0B # 0 # 0 # 0 # 1 # []) # [[0, 0, 0, 2, 0x61, 0x62]]"
      by (simp add: NewStreamReader_def)
    obtain sa where h: "readTypeSizeHeader ?l = ((0x0B, 1, None), sa)"
      and ra: "reader sa = (0 # 0 # 0 # 2 # [0x61, 0x62]) # []"
      using readTypeSizeHeader_chunk [OF src, of 1] by (auto simp: Uint32_def)
    obtain sb where i: "ReadInt32 sa = ((2, None), sb)" and rb: "reader sb = [[0x61, 0x62]]"
      using ReadInt32_chunk [OF ra] by (auto simp: Uint32_def)
    have dd: "discard 2 sb = (None, sb\<lparr>reader := []\<rparr>)"
      by (simp add: discard_def CopyN_def rb)
    have f4: "(4 :: nat) = Suc (Suc (Suc (Suc 0)))"
      by simp
    show ?thesis
      unfolding f4 by (simp add: fixedWidth_def wire_Type_defs h i dd remaining_def)
  qed
  then obtain sr3 where l3: "Skip 4 TList ?l = Some (None, sr3)" and r3: "remaining sr3 = []"
    by blast
  have lr: "remaining ?l = [0x0B, 0, 0, 0, 1, 0, 0, 0, 2, 0x61, 0x62]"
    by (simp add: remaining_def NewStreamReader_def)
  have t: "truncate_source 9 ?l = NewStreamReader [[0x0B, 0, 0, 0, 1], [0, 0, 0, 2]]"
    by (simp add: truncate_source_def NewStreamReader_def)
  have f2: "(2 :: nat) = Suc (Suc 0)"
    by simp
  define sr4 where "sr4 = snd (ReadInt8 ?f)"
  have f: "ReadInt8 ?f = ((8, None), sr4)"
    by (simp add: sr4_def rd_defs NewStreamReader_def)
  have f1: "reader sr4 = [0x00] # [[0x01]]"
    by (simp add: sr4_def rd_defs NewStreamReader_def)
  define sr5 where "sr5 = snd (ReadInt8 ?m)"
  define sr6 where "sr6 = snd (ReadInt8 sr5)"
  have m: "ReadInt8 ?m = ((8, None), sr5)"
    by (simp add: sr5_def rd_defs NewStreamReader_def)
  have m1: "reader sr5 = [[0x0B], [0x00, 0x00], [0x00, 0x01]]"
    by (simp add: sr5_def rd_defs NewStreamReader_def)
  have m2: "ReadInt8 sr5 = ((0x0B, None), sr6)"
    by (simp add: sr6_def rd_defs m1)
  have m3: "reader sr6 = [0x00, 0x00] # [[0x00, 0x01]]"
    by (simp add: sr6_def rd_defs m1)
  have 1: "\<exists>sr''. Skip 4 TList (NewStreamReader [[0x0B, 0, 0, 0, 1], [0, 0, 0, 2]])
         = Some (Some ErrUnexpectedEOF, sr'')"
    using all_EOFs_unexpected [where sr = ?l and fuel = 4 and t = TList and sr' = sr3 and r = 9]
      l3
    by (simp add: lr r3 t del: Skip.simps)
  have 2: "\<exists>sr''. Skip 2 TStruct ?e = Some (Some ErrUnexpectedEOF, sr'')"
    using all_EOFs_unexpected [where sr = ?e and fuel = 0 and t = TStruct]
    unfolding f2 by (simp add: e del: Skip.simps)
  have 3: "snd (fst (ReadBinary 1024 ?d)) = Some ErrUnexpectedEOF"
    using all_EOFs_unexpected [where sr = ?d and len = 2 and ?sr1.0 = sr2 and thr = 1024
        and c = "[0x61]" and cs = "[[0x62]]"]
    by (simp add: d d1)
  have 4: "fst (ReadBinary 1 ?d) = (Some [0x61, 0x62], None)"
    using all_EOFs_unexpected [where sr = ?d and len = 2 and ?sr1.0 = sr2 and thr = 1]
    by (simp add: d d1)
  have 5: "snd (fst (ReadInt16 sr4)) = Some ErrUnexpectedEOF"
    using all_EOFs_unexpected [where sr = sr4 and c = "[0x00]" and cs = "[[0x01]]"]
    by (simp add: f1)
  have 6: "snd (fst (ReadFieldBegin ?f)) = (False, Some ErrUnexpectedEOF)"
    using all_EOFs_unexpected [where sr = ?f and v = 8 and ?sr1.0 = sr4
        and err = ErrUnexpectedEOF]
    by (simp add: f 5)
  have 7: "snd (fst (ReadInt32 sr6)) = Some ErrUnexpectedEOF"
    using all_EOFs_unexpected [where sr = sr6 and c = "[0x00, 0x00]" and cs = "[[0x00, 0x01]]"]
    by (simp add: m3)
  have 8: "snd (fst (ReadMapBegin ?m)) = Some ErrUnexpectedEOF"
    using all_EOFs_unexpected [where sr = ?m and v = 8 and ?sr1.0 = sr5 and v' = "0x0B"
        and ?sr2.0 = sr6 and err = ErrUnexpectedEOF]
    by (simp add: m m2 7)
  show ?thesis
    using all_EOFs_unexpected [where sr = ?e and bs = "[0, 0]" and n = 3 and thr = 1024]
      all_EOFs_unexpected [where sr = ?s and bs = "[0, 0]" and c = "[0x01]" and cs = "[[0x02, 0x03]]"
        and n = 2]
      all_EOFs_unexpected [where sr = ?b and len = 5 and ?sr1.0 = sr1 and thr = 1024]
      all_EOFs_unexpected [where sr = ?b and len = 5 and ?sr1.0 = sr1 and thr = 2]
      1 2 3 4 6 8
    by (simp add: e s b b1 del: Skip.simps)
qed

text \<open>
  C7. When \<open>compileEnum\<close> succeeds, the compiled enum has the declaration's name and
  its items' names in order, and the value of item \<open>i\<close> is its explicit value where it
  has one, \<open>0\<close> where it is the first item and has none, and the value of item \<open>i - 1\<close>
  plus one otherwise (values are \<open>i32\<close>, so \<open>+ 1\<close> is the addition of \<open>int32\<close>). A
  declaration whose item names differ compiles. \<^verbatim>\<open>enum foo { A, B, C = 10, D, E }\<close> compiles
  to \<open>[(A,0), (B,1), (C,10), (D,11), (E,12)]\<close>.
\<close>

theorem compileEnum_values:
  "(compileEnum src = Inr spec \<longrightarrow>
      spec_Name spec = ast_enum_Name src
      \<and> map item_Name (spec_Items spec) = map ast_item_Name (ast_enum_Items src)
      \<and> (\<forall>i < length (ast_enum_Items src).
            item_Value (spec_Items spec ! i) =
              (case ast_item_Value (ast_enum_Items src ! i) of
                 Some v \<Rightarrow> v
               | None \<Rightarrow> if i = 0 then 0 else item_Value (spec_Items spec ! (i - 1)) + 1)))
 \<and> (distinct (map ast_item_Name (ast_enum_Items src)) \<longrightarrow> (\<exists>spec. compileEnum src = Inr spec))
 \<and> compileEnum (ast_Enum ''foo''
        [ast_EnumItem ''A'' None, ast_EnumItem ''B'' None, ast_EnumItem ''C'' (Some 10),
         ast_EnumItem ''D'' None, ast_EnumItem ''E'' None])
     = Inr (EnumSpec ''foo''
        [EnumItem ''A'' 0, EnumItem ''B'' 1, EnumItem ''C'' 10, EnumItem ''D'' 11,
         EnumItem ''E'' 12])"
proof -
  have a: "spec_Name spec = ast_enum_Name src
      \<and> map item_Name (spec_Items spec) = map ast_item_Name (ast_enum_Items src)
      \<and> (\<forall>i < length (ast_enum_Items src).
            item_Value (spec_Items spec ! i) =
              (case ast_item_Value (ast_enum_Items src ! i) of
                 Some v \<Rightarrow> v
               | None \<Rightarrow> if i = 0 then 0 else item_Value (spec_Items spec ! (i - 1)) + 1))"
    if ok: "compileEnum src = Inr spec"
  proof -
    from ok obtain items where
      items: "compileEnum_items (ast_enum_Name src) [] None (ast_enum_Items src) = Inr items"
      and spec: "spec = EnumSpec (ast_enum_Name src) items"
      by (auto simp: compileEnum_def split: sum.splits)
    show ?thesis
      using compileEnum_items_Inr [OF items]
      by (auto simp: spec split: option.splits)
  qed
  have b: "\<exists>spec. compileEnum src = Inr spec"
    if "distinct (map ast_item_Name (ast_enum_Items src))"
    using compileEnum_items_distinct [of "ast_enum_Items src" "[]" "ast_enum_Name src" None] that
    by (auto simp: compileEnum_def)
  have c: "compileEnum (ast_Enum ''foo''
        [ast_EnumItem ''A'' None, ast_EnumItem ''B'' None, ast_EnumItem ''C'' (Some 10),
         ast_EnumItem ''D'' None, ast_EnumItem ''E'' None])
     = Inr (EnumSpec ''foo''
        [EnumItem ''A'' 0, EnumItem ''B'' 1, EnumItem ''C'' 10, EnumItem ''D'' 11,
         EnumItem ''E'' 12])"
    by (simp add: compileEnum_def)
  show ?thesis
    using a b c by blast
qed

theorem compileEnum_values_witness:
  "compileEnum (ast_Enum ''bar''
        [ast_EnumItem ''A'' None, ast_EnumItem ''B'' (Some 0), ast_EnumItem ''C'' None,
         ast_EnumItem ''D'' (Some 0), ast_EnumItem ''E'' None])
     = Inr (EnumSpec ''bar''
        [EnumItem ''A'' 0, EnumItem ''B'' 0, EnumItem ''C'' 1, EnumItem ''D'' 0, EnumItem ''E'' 1])
   \<and> map item_Name [EnumItem ''A'' 0, EnumItem ''B'' 0, EnumItem ''C'' 1, EnumItem ''D'' 0,
         EnumItem ''E'' 1] = [''A'', ''B'', ''C'', ''D'', ''E'']
   \<and> (\<exists>spec. compileEnum (ast_Enum ''bar''
        [ast_EnumItem ''A'' None, ast_EnumItem ''B'' (Some 0), ast_EnumItem ''C'' None,
         ast_EnumItem ''D'' (Some 0), ast_EnumItem ''E'' None]) = Inr spec)"
proof -
  let ?src = "ast_Enum ''bar''
        [ast_EnumItem ''A'' None, ast_EnumItem ''B'' (Some 0), ast_EnumItem ''C'' None,
         ast_EnumItem ''D'' (Some 0), ast_EnumItem ''E'' None]"
  let ?spec = "EnumSpec ''bar''
        [EnumItem ''A'' 0, EnumItem ''B'' 0, EnumItem ''C'' 1, EnumItem ''D'' 0, EnumItem ''E'' 1]"
  have ok: "compileEnum ?src = Inr ?spec"
    by (simp add: compileEnum_def)
  have d: "distinct (map ast_item_Name (ast_enum_Items ?src))"
    by simp
  from compileEnum_values [of ?src ?spec] ok d show ?thesis
    by simp
qed

text \<open>
  C8. A declaration in which two items have the same name does not compile: the result
  is the error for the target \<open>Enum.name\<close> of a repeated name, and the error's message
  contains \<^verbatim>\<open>cannot compile "Enum.name"\<close> and \<^verbatim>\<open>the name "name" has already been used\<close>.
  For \<^verbatim>\<open>enum Foo { A, B, C, A, D }\<close> the message contains \<^verbatim>\<open>cannot compile "Foo.A"\<close> and
  \<^verbatim>\<open>the name "A" has already been used\<close>.
\<close>

theorem compileEnum_duplicate_name:
  "(\<not> distinct (map ast_item_Name (ast_enum_Items src)) \<longrightarrow>
      (\<exists>name e. name \<in> set (map ast_item_Name (ast_enum_Items src))
         \<and> compileEnum src = Inl e
         \<and> e = CompileError (ast_enum_Name src @ ''.'' @ name) (NameConflict name)
         \<and> sublist (''cannot compile \"'' @ ast_enum_Name src @ ''.'' @ name @ ''\"'') (Error e)
         \<and> sublist (''the name \"'' @ name @ ''\" has already been used'') (Error e)))
 \<and> (\<exists>e. compileEnum (ast_Enum ''Foo''
              [ast_EnumItem ''A'' None, ast_EnumItem ''B'' None, ast_EnumItem ''C'' None,
               ast_EnumItem ''A'' None, ast_EnumItem ''D'' None]) = Inl e
        \<and> sublist ''cannot compile \"Foo.A\"'' (Error e)
        \<and> sublist ''the name \"A\" has already been used'' (Error e))"
proof -
  have a: "\<exists>name e. name \<in> set (map ast_item_Name (ast_enum_Items src))
         \<and> compileEnum src = Inl e
         \<and> e = CompileError (ast_enum_Name src @ ''.'' @ name) (NameConflict name)
         \<and> sublist (''cannot compile \"'' @ ast_enum_Name src @ ''.'' @ name @ ''\"'') (Error e)
         \<and> sublist (''the name \"'' @ name @ ''\" has already been used'') (Error e)"
    if dup: "\<not> distinct (map ast_item_Name (ast_enum_Items src))"
  proof -
    from dup have "\<not> (distinct (map ast_item_Name (ast_enum_Items src))
        \<and> set (map ast_item_Name (ast_enum_Items src)) \<inter> set [] = {})"
      by simp
    from compileEnum_items_duplicate [OF this, of "ast_enum_Name src" None]
    obtain name where n: "name \<in> set (map ast_item_Name (ast_enum_Items src))"
      and e: "compileEnum_items (ast_enum_Name src) [] None (ast_enum_Items src)
        = Inl (CompileError (ast_enum_Name src @ ''.'' @ name) (NameConflict name))"
      by blast
    let ?e = "CompileError (ast_enum_Name src @ ''.'' @ name) (NameConflict name)"
    have c: "compileEnum src = Inl ?e"
      by (simp add: compileEnum_def e)
    have s1: "sublist (''cannot compile \"'' @ ast_enum_Name src @ ''.'' @ name @ ''\"'') (Error ?e)"
      using Error_fragments(1) [of "ast_enum_Name src @ ''.'' @ name" "NameConflict name"]
      by simp
    have s2: "sublist (''the name \"'' @ name @ ''\" has already been used'') (Error ?e)"
      using Error_fragments(2) [of "NameConflict name" "ast_enum_Name src @ ''.'' @ name"]
      by simp
    show ?thesis
      using n c s1 s2 by blast
  qed
  let ?e = "CompileError ''Foo.A'' (NameConflict ''A'')"
  have c: "compileEnum (ast_Enum ''Foo''
              [ast_EnumItem ''A'' None, ast_EnumItem ''B'' None, ast_EnumItem ''C'' None,
               ast_EnumItem ''A'' None, ast_EnumItem ''D'' None]) = Inl ?e"
    by (simp add: compileEnum_def)
  have s1: "sublist ''cannot compile \"Foo.A\"'' (Error ?e)"
    using Error_fragments(1) [of "''Foo.A''" "NameConflict ''A''"] by simp
  have s2: "sublist ''the name \"A\" has already been used'' (Error ?e)"
    using Error_fragments(2) [of "NameConflict ''A''" "''Foo.A''"] by simp
  show ?thesis
    using a c s1 s2 by blast
qed

theorem compileEnum_duplicate_name_witness:
  "\<exists>name e. name \<in> {''A'', ''B''}
     \<and> compileEnum (ast_Enum ''E'' [ast_EnumItem ''A'' None, ast_EnumItem ''B'' (Some 5),
                                     ast_EnumItem ''B'' None]) = Inl e
     \<and> e = CompileError (''E.'' @ name) (NameConflict name)"
proof -
  let ?src = "ast_Enum ''E'' [ast_EnumItem ''A'' None, ast_EnumItem ''B'' (Some 5),
                              ast_EnumItem ''B'' None]"
  have dup: "\<not> distinct (map ast_item_Name (ast_enum_Items ?src))"
    by simp
  from compileEnum_duplicate_name [of ?src] dup show ?thesis
    by auto
qed

text \<open>
  C9. When the next \<open>int32\<close> is read without error and is 0, \<open>ReadBinary\<close> returns the
  empty slice \<^verbatim>\<open>[]byte{}\<close> (\<open>Some []\<close>, not the \<open>nil\<close> slice \<open>None\<close>) and no error, in the
  state right after the length prefix: the four bytes of the prefix are all it consumed.
\<close>

theorem ReadBinary_empty:
  assumes "ReadInt32 sr = ((0, None), sr')"
  shows "ReadBinary bytesAllocThreshold sr = ((Some [], None), sr')
       \<and> remaining sr' = drop 4 (remaining sr)"
proof -
  obtain bs where rb: "read_buffer 4 sr = ((bs, None), sr')"
    using assms by (auto simp: ReadInt32_def split_beta prod_eq_iff)
  have "remaining sr' = drop 4 (remaining sr)"
    using read_buffer_consumes [OF rb] by simp
  then show ?thesis
    using assms by (simp add: ReadBinary_def)
qed

theorem ReadBinary_empty_witness:
  "fst (ReadBinary 1024 (NewStreamReader [[0x00, 0x00, 0x00, 0x00, 0x61, 0x62]])) = (Some [], None)
   \<and> remaining (snd (ReadBinary 1024 (NewStreamReader [[0x00, 0x00, 0x00, 0x00, 0x61, 0x62]])))
     = [0x61, 0x62]"
proof -
  let ?sr = "NewStreamReader [[0x00, 0x00, 0x00, 0x00, 0x61, 0x62]]"
  have r: "ReadInt32 ?sr = ((0, None), snd (ReadInt32 ?sr))"
    by (simp add: rd_defs NewStreamReader_def Uint32_def)
  have rem: "remaining ?sr = [0x00, 0x00, 0x00, 0x00, 0x61, 0x62]"
    by (simp add: remaining_def NewStreamReader_def)
  show ?thesis
    using ReadBinary_empty [OF r, of 1024] by (simp add: rem)
qed

text \<open>
  C10. \<open>Skip\<close> of \<open>SET\<close> is \<open>Skip\<close> of \<open>LIST\<close>: on every state and with every fuel the
  two return the same error and the same state, and with \<open>length (remaining sr) + 2\<close>
  nested calls allowed they return. For either type code, on a source that starts with an
  element type \<open>t\<close> and four bytes that decode to \<open>n\<close>: a negative \<open>n\<close> gives the
  negative-length error after the 5 header bytes; for \<open>n \<ge> 0\<close> and a fixed-width \<open>t\<close>
  the 5 header bytes and \<open>fixedWidth t * n\<close> further bytes are consumed, with no error
  exactly when the source had them; for \<open>n \<ge> 0\<close> and any other \<open>t\<close> the result is that
  of the loop of \<open>skipList\<close> from the state after the header, which is the result of
  skipping \<open>n\<close> elements of type \<open>t\<close> one after the other (\<open>skip_elements_spec\<close>).
\<close>

theorem Skip_set_as_list:
  "Skip fuel TSet sr = Skip fuel TList sr
 \<and> Skip (length (remaining sr) + 2) TList sr \<noteq> None
 \<and> ((ty = TSet \<or> ty = TList) \<and> reader sr = (t # n3 # n2 # n1 # n0 # c) # cs
      \<and> n = Uint32 [n3, n2, n1, n0] \<longrightarrow>
      (sint n < 0 \<longrightarrow>
         (\<exists>sr'. Skip (Suc (Suc fuel)) ty sr = Some (Some (NegativeLength n), sr')
            \<and> remaining sr' = drop 5 (remaining sr)))
    \<and> (0 \<le> sint n \<and> 0 < fixedWidth t \<longrightarrow>
         (\<exists>err sr'. Skip (Suc (Suc fuel)) ty sr = Some (err, sr')
            \<and> remaining sr' = drop (5 + nat (fixedWidth t * sint n)) (remaining sr)
            \<and> (err = None \<longleftrightarrow> 5 + fixedWidth t * sint n \<le> int (length (remaining sr)))
            \<and> (err \<noteq> None \<longrightarrow> err = Some ErrUnexpectedEOF)))
    \<and> (0 \<le> sint n \<and> \<not> 0 < fixedWidth t \<longrightarrow>
         (\<exists>sr1. remaining sr1 = drop 5 (remaining sr)
            \<and> Skip (Suc (Suc fuel)) ty sr = skipList_loop fuel 0 (sint n) t sr1
            \<and> (\<forall>r. Skip (Suc (Suc fuel)) ty sr = Some r \<longrightarrow>
                  skip_elements_spec fuel (nat (sint n)) t sr1 = Some r))))"
proof -
  have eq: "Skip fuel TSet sr = Skip fuel TList sr"
    by (rule Skip_TSet_TList)
  have tot: "Skip (length (remaining sr) + 2) TList sr \<noteq> None"
    by (rule Skip_total) simp
  have hdr: "(sint n < 0 \<longrightarrow>
         (\<exists>sr'. Skip (Suc (Suc fuel)) ty sr = Some (Some (NegativeLength n), sr')
            \<and> remaining sr' = drop 5 (remaining sr)))
    \<and> (0 \<le> sint n \<and> 0 < fixedWidth t \<longrightarrow>
         (\<exists>err sr'. Skip (Suc (Suc fuel)) ty sr = Some (err, sr')
            \<and> remaining sr' = drop (5 + nat (fixedWidth t * sint n)) (remaining sr)
            \<and> (err = None \<longleftrightarrow> 5 + fixedWidth t * sint n \<le> int (length (remaining sr)))
            \<and> (err \<noteq> None \<longrightarrow> err = Some ErrUnexpectedEOF)))
    \<and> (0 \<le> sint n \<and> \<not> 0 < fixedWidth t \<longrightarrow>
         (\<exists>sr1. remaining sr1 = drop 5 (remaining sr)
            \<and> Skip (Suc (Suc fuel)) ty sr = skipList_loop fuel 0 (sint n) t sr1
            \<and> (\<forall>r. Skip (Suc (Suc fuel)) ty sr = Some r \<longrightarrow>
                  skip_elements_spec fuel (nat (sint n)) t sr1 = Some r)))"
    if ty: "ty = TSet \<or> ty = TList" and src: "reader sr = (t # n3 # n2 # n1 # n0 # c) # cs"
      and n: "n = Uint32 [n3, n2, n1, n0]"
  proof -
    have sk: "Skip (Suc (Suc fuel)) ty sr = skipList (Suc fuel) sr"
      using ty by (auto simp: fixedWidth_def wire_Type_defs)
    obtain sr1 where h: "readTypeSizeHeader sr =
            ((if sint n < 0 then 0 else t, if sint n < 0 then 0 else sint n,
              if sint n < 0 then Some (NegativeLength n) else None), sr1)"
      and s1: "reader sr1 = (if c = [] then cs else c # cs)"
      using readTypeSizeHeader_chunk [OF src n] by auto
    have rem: "remaining sr = t # n3 # n2 # n1 # n0 # c @ concat cs"
      by (simp add: remaining_def src)
    have "remaining sr1 = c @ concat cs"
      by (simp add: remaining_def s1)
    then have r1: "remaining sr1 = drop 5 (remaining sr)"
      by (simp add: rem)
    have neg: "\<exists>sr'. Skip (Suc (Suc fuel)) ty sr = Some (Some (NegativeLength n), sr')
            \<and> remaining sr' = drop 5 (remaining sr)" if "sint n < 0"
      unfolding sk using that r1 by (simp add: h)
    have loop: "\<exists>sr1. remaining sr1 = drop 5 (remaining sr)
            \<and> Skip (Suc (Suc fuel)) ty sr = skipList_loop fuel 0 (sint n) t sr1
            \<and> (\<forall>r. Skip (Suc (Suc fuel)) ty sr = Some r \<longrightarrow>
                  skip_elements_spec fuel (nat (sint n)) t sr1 = Some r)"
      if nn: "0 \<le> sint n" and nw: "\<not> 0 < fixedWidth t"
    proof -
      have l: "Skip (Suc (Suc fuel)) ty sr = skipList_loop fuel 0 (sint n) t sr1"
        unfolding sk using nn nw by (auto simp: h)
      have "skip_elements_spec fuel (nat (sint n)) t sr1 = Some r"
        if "Skip (Suc (Suc fuel)) ty sr = Some r" for r
        using skipList_loop_elements [of fuel 0 "sint n" t sr1 r] that
        unfolding l by simp
      then show ?thesis
        using r1 l by blast
    qed
    have fixed: "\<exists>err sr'. Skip (Suc (Suc fuel)) ty sr = Some (err, sr')
            \<and> remaining sr' = drop (5 + nat (fixedWidth t * sint n)) (remaining sr)
            \<and> (err = None \<longleftrightarrow> 5 + fixedWidth t * sint n \<le> int (length (remaining sr)))
            \<and> (err \<noteq> None \<longrightarrow> err = Some ErrUnexpectedEOF)"
      if nn: "0 \<le> sint n" and w: "0 < fixedWidth t"
    proof -
      let ?len = "fixedWidth t * sint n"
      have sk': "Skip (Suc (Suc fuel)) ty sr = Some (discard ?len sr1)"
        unfolding sk using nn w by (simp add: h)
      obtain err sr' where d: "discard ?len sr1 = (err, sr')"
        by (cases "discard ?len sr1")
      have e: "err = (if ?len \<le> int (length (remaining sr1)) then None else Some ErrUnexpectedEOF)"
        using discard_err [of ?len sr1] by (simp add: d remaining_def)
      have r: "remaining sr' = drop (nat ?len) (remaining sr1)"
        using discard_rest [of ?len sr1] by (simp add: d remaining_def)
      have r': "remaining sr' = drop (5 + nat ?len) (remaining sr)"
        unfolding r r1 drop_drop by (simp add: add.commute)
      have e1: "err = None \<longleftrightarrow> 5 + ?len \<le> int (length (remaining sr))"
        by (simp add: e r1 rem)
      have e2: "err \<noteq> None \<longrightarrow> err = Some ErrUnexpectedEOF"
        by (simp add: e)
      show ?thesis
        unfolding sk' d using r' e1 e2 by blast
    qed
    show ?thesis
      using neg fixed loop by blast
  qed
  show ?thesis
    using eq tot hdr by blast
qed

theorem Skip_set_as_list_witness:
  "(\<exists>sr'. Skip 2 TSet (NewStreamReader [[0x08, 0xFF, 0xFF, 0xFF, 0xFF, 0x7F]])
            = Some (Some (NegativeLength (- 1)), sr') \<and> remaining sr' = [0x7F])
   \<and> (\<exists>sr'. Skip 2 TSet (NewStreamReader [[0x06, 0, 0, 0, 3, 0, 1, 0, 2, 0, 3, 0x7F]])
            = Some (None, sr') \<and> remaining sr' = [0x7F])
   \<and> (\<exists>sr'. Skip 2 TList (NewStreamReader [[0x06, 0, 0, 0, 3, 0, 1, 0, 2, 0, 3, 0x7F]])
            = Some (None, sr') \<and> remaining sr' = [0x7F])
   \<and> (\<exists>sr1. remaining sr1 = [0, 0, 0, 1, 0x61, 0, 0, 0, 0, 0x7F]
         \<and> Skip 5 TSet (NewStreamReader [[0x0B, 0, 0, 0, 2, 0, 0, 0, 1, 0x61, 0, 0, 0, 0, 0x7F]])
           = skipList_loop 3 0 2 TBinary sr1)
   \<and> Skip 5 TSet (NewStreamReader [[0x0B, 0, 0, 0, 2, 0, 0, 0, 1, 0x61, 0, 0, 0, 0, 0x7F]])
       = Skip 5 TList (NewStreamReader [[0x0B, 0, 0, 0, 2, 0, 0, 0, 1, 0x61, 0, 0, 0, 0, 0x7F]])"
proof -
  let ?neg = "NewStreamReader [[0x08, 0xFF, 0xFF, 0xFF, 0xFF, 0x7F]]"
  let ?fix = "NewStreamReader [[0x06, 0, 0, 0, 3, 0, 1, 0, 2, 0, 3, 0x7F]]"
  let ?var = "NewStreamReader [[0x0B, 0, 0, 0, 2, 0, 0, 0, 1, 0x61, 0, 0, 0, 0, 0x7F]]"
  have w: "fixedWidth 0x06 = 2" "fixedWidth 0x0B = - 1" "TBinary = 0x0B"
    by (simp_all add: fixedWidth_def wire_Type_defs)
  have n: "Uint32 [0xFF, 0xFF, 0xFF, 0xFF] = - 1" "Uint32 [0, 0, 0, 3] = 3"
    "Uint32 [0, 0, 0, 2] = 2"
    by (simp_all add: Uint32_def)
  have r: "reader ?neg = (0x08 # 0xFF # 0xFF # 0xFF # 0xFF # [0x7F]) # []"
    "reader ?fix = (0x06 # 0 # 0 # 0 # 3 # [0, 1, 0, 2, 0, 3, 0x7F]) # []"
    "reader ?var = (0x0B # 0 # 0 # 0 # 2 # [0, 0, 0, 1, 0x61, 0, 0, 0, 0, 0x7F]) # []"
    by (simp_all add: NewStreamReader_def)
  have m: "remaining ?neg = [0x08, 0xFF, 0xFF, 0xFF, 0xFF, 0x7F]"
    "remaining ?fix = [0x06, 0, 0, 0, 3, 0, 1, 0, 2, 0, 3, 0x7F]"
    "remaining ?var = [0x0B, 0, 0, 0, 2, 0, 0, 0, 1, 0x61, 0, 0, 0, 0, 0x7F]"
    by (simp_all add: remaining_def NewStreamReader_def)
  have f: "(2 :: nat) = Suc (Suc 0)" "(5 :: nat) = Suc (Suc 3)"
    by simp_all
  have 1: "\<exists>sr'. Skip 2 TSet ?neg = Some (Some (NegativeLength (- 1)), sr') \<and> remaining sr' = [0x7F]"
    using Skip_set_as_list [where fuel = 0 and sr = ?neg and ty = TSet and t = "0x08"
          and ?n3.0 = "0xFF" and ?n2.0 = "0xFF" and ?n1.0 = "0xFF" and ?n0.0 = "0xFF"
          and c = "[0x7F]" and cs = "[]" and n = "- 1"]
      r(1)
    unfolding f by (simp add: m n del: Skip.simps)
  have 2: "\<exists>sr'. Skip 2 ty ?fix = Some (None, sr') \<and> remaining sr' = [0x7F]"
    if "ty = TSet \<or> ty = TList" for ty
    using Skip_set_as_list [where fuel = 0 and sr = ?fix and ty = ty and t = "0x06"
          and ?n3.0 = 0 and ?n2.0 = 0 and ?n1.0 = 0 and ?n0.0 = 3
          and c = "[0, 1, 0, 2, 0, 3, 0x7F]" and cs = "[]" and n = 3]
      r(2) that
    unfolding f by (auto simp add: m n w simp del: Skip.simps)
  have 3: "\<exists>sr1. remaining sr1 = [0, 0, 0, 1, 0x61, 0, 0, 0, 0, 0x7F]
         \<and> Skip 5 TSet ?var = skipList_loop 3 0 2 TBinary sr1"
    using Skip_set_as_list [where fuel = 3 and sr = ?var and ty = TSet and t = "0x0B"
          and ?n3.0 = 0 and ?n2.0 = 0 and ?n1.0 = 0 and ?n0.0 = 2
          and c = "[0, 0, 0, 1, 0x61, 0, 0, 0, 0, 0x7F]" and cs = "[]" and n = 2]
      r(3)
    unfolding f
    by (auto simp add: m n w simp del: Skip.simps skipList_loop.simps skip_elements_spec.simps)
  have 4: "Skip 5 TSet ?var = Skip 5 TList ?var"
    using Skip_set_as_list [where fuel = 5 and sr = ?var] by simp
  show ?thesis
    using 1 2 3 4 by blast
qed

end
